theory Spec2Isabelle
  imports Main "HOL-Library.Sublist"
begin

section \<open>JavaScript strings and regular-expression character classes\<close>

text \<open>
  A JavaScript string is a sequence of UTF-16 code units, and the regular expressions of
  \<^verbatim>\<open>smart-review-v2.js\<close> (none carries the \<^verbatim>\<open>u\<close> flag) work on code units. A string is
  therefore a list of code-unit numbers; \<open>js\<close> embeds an ASCII literal.
\<close>

type_synonym jsstring = "nat list"

definition js :: "string \<Rightarrow> jsstring" where
  "js s = map of_char s"

text \<open>\<^verbatim>\<open>\s\<close>: the white space and line terminators of ECMAScript (also what \<^verbatim>\<open>trim()\<close> strips).\<close>

definition is_space :: "nat \<Rightarrow> bool" where
  "is_space c \<longleftrightarrow>
     c \<in> set [9, 10, 11, 12, 13, 32, 160, 5760, 8232, 8233, 8239, 8287, 12288, 65279]
     \<or> (8192 \<le> c \<and> c \<le> 8202)"

text \<open>\<^verbatim>\<open>\w\<close> is \<^verbatim>\<open>[A-Za-z0-9_]\<close>, \<^verbatim>\<open>\d\<close> is \<^verbatim>\<open>[0-9]\<close>.\<close>

definition is_digit :: "nat \<Rightarrow> bool" where
  "is_digit c \<longleftrightarrow> 48 \<le> c \<and> c \<le> 57"

definition is_upper :: "nat \<Rightarrow> bool" where
  "is_upper c \<longleftrightarrow> 65 \<le> c \<and> c \<le> 90"

definition is_lower :: "nat \<Rightarrow> bool" where
  "is_lower c \<longleftrightarrow> 97 \<le> c \<and> c \<le> 122"

definition is_word :: "nat \<Rightarrow> bool" where
  "is_word c \<longleftrightarrow> is_digit c \<or> is_upper c \<or> is_lower c \<or> c = 95"

text \<open>\<^verbatim>\<open>.\<close> matches every code unit but the four line terminators.\<close>

definition is_line_terminator :: "nat \<Rightarrow> bool" where
  "is_line_terminator c \<longleftrightarrow> c \<in> set [10, 13, 8232, 8233]"

text \<open>
  Under the \<^verbatim>\<open>i\<close> flag (without \<^verbatim>\<open>u\<close>) an ASCII letter of a pattern matches exactly its
  two ASCII case variants: the canonicalisation never maps a code unit above 127 to one
  below 128. Matching a lower-case pattern letter is comparing with \<open>lower_ascii c\<close>.
\<close>

definition lower_ascii :: "nat \<Rightarrow> nat" where
  "lower_ascii c = (if is_upper c then c + 32 else c)"

text \<open>A pattern tested at every start position of the input (an unanchored \<^verbatim>\<open>test\<close>).\<close>

fun anywhere :: "(jsstring \<Rightarrow> bool) \<Rightarrow> jsstring \<Rightarrow> bool" where
  "anywhere P [] = P []"
| "anywhere P (x # xs) = (P (x # xs) \<or> anywhere P xs)"

text \<open>\<^verbatim>\<open>String.prototype.includes\<close>, \<^verbatim>\<open>startsWith\<close> (which is \<open>prefix\<close>) and \<^verbatim>\<open>endsWith\<close>.\<close>

definition str_includes :: "jsstring \<Rightarrow> jsstring \<Rightarrow> bool" where
  "str_includes xs p = anywhere (prefix p) xs"

definition endsWith :: "jsstring \<Rightarrow> jsstring \<Rightarrow> bool" where
  "endsWith xs p = prefix (rev p) (rev xs)"

text \<open>\<^verbatim>\<open>String.prototype.trim\<close>.\<close>

definition trim :: "jsstring \<Rightarrow> jsstring" where
  "trim xs = rev (dropWhile is_space (rev (dropWhile is_space xs)))"

text \<open>
  \<^verbatim>\<open>text.replace(/re/g, replacement)\<close> for a pattern without look-behind: the matcher
  gives the length of the match starting at the head of the remaining input, if there is
  one. The scan copies a code unit where nothing matches, and after a match goes on
  behind it (behind the next code unit when the match is empty).
\<close>

type_synonym matcher = "jsstring \<Rightarrow> nat option"

function replace_all :: "matcher \<Rightarrow> jsstring \<Rightarrow> jsstring \<Rightarrow> jsstring" where
  "replace_all m rep [] = (case m [] of Some _ \<Rightarrow> rep | None \<Rightarrow> [])"
| "replace_all m rep (x # xs) =
     (case m (x # xs) of
        None \<Rightarrow> x # replace_all m rep xs
      | Some n \<Rightarrow>
          if n = 0 then rep @ x # replace_all m rep xs
          else rep @ replace_all m rep (drop n (x # xs)))"
  by pat_completeness auto
termination
  by (relation "measure (\<lambda>(m, rep, xs). length xs)") auto

section \<open>Errors\<close>

text \<open>
  Every \<^verbatim>\<open>throw\<close> of the module raises a plain \<^verbatim>\<open>Error\<close> carrying a message; the
  runtime raises a \<^verbatim>\<open>TypeError\<close> when a non-function is called and \<^verbatim>\<open>JSON.parse\<close> a
  \<^verbatim>\<open>SyntaxError\<close>. A function that may throw returns \<open>error + 'a\<close>.
\<close>

datatype error = Error jsstring | TypeError jsstring | SyntaxError jsstring

fun error_message :: "error \<Rightarrow> jsstring" where
  "error_message (Error m) = m"
| "error_message (TypeError m) = m"
| "error_message (SyntaxError m) = m"

text \<open>\<^verbatim>\<open>String(error)\<close>.\<close>

fun error_to_string :: "error \<Rightarrow> jsstring" where
  "error_to_string (Error m) = (if m = [] then js ''Error'' else js ''Error: '' @ m)"
| "error_to_string (TypeError m) = (if m = [] then js ''TypeError'' else js ''TypeError: '' @ m)"
| "error_to_string (SyntaxError m) =
     (if m = [] then js ''SyntaxError'' else js ''SyntaxError: '' @ m)"

section \<open>SecurityUtils\<close>

subsection \<open>Node's \<^verbatim>\<open>path.resolve\<close> and \<^verbatim>\<open>path.relative\<close> (POSIX)\<close>

text \<open>
  \<^verbatim>\<open>validatePath\<close> calls the platform's \<^verbatim>\<open>path\<close> module. The POSIX variant is modelled:
  \<^verbatim>\<open>resolve\<close> prepends its arguments from right to left (then the working directory)
  until an absolute one is reached, and normalises the result segment by segment:
  empty segments and \<^verbatim>\<open>.\<close> vanish, \<^verbatim>\<open>..\<close> removes the segment before it.
\<close>

fun split_on :: "nat \<Rightarrow> jsstring \<Rightarrow> jsstring list" where
  "split_on d [] = [[]]"
| "split_on d (c # cs) =
     (if c = d then [] # split_on d cs
      else (case split_on d cs of [] \<Rightarrow> [[c]] | s # ss \<Rightarrow> (c # s) # ss))"

fun join :: "jsstring \<Rightarrow> jsstring list \<Rightarrow> jsstring" where
  "join sep [] = []"
| "join sep [s] = s"
| "join sep (s # t # ss) = s @ sep @ join sep (t # ss)"

text \<open>The accumulator holds the segments kept so far, last one first.\<close>

fun norm_segs :: "bool \<Rightarrow> jsstring list \<Rightarrow> jsstring list \<Rightarrow> jsstring list" where
  "norm_segs allowAboveRoot acc [] = rev acc"
| "norm_segs allowAboveRoot acc (s # ss) =
     (if s = [] \<or> s = js ''.'' then norm_segs allowAboveRoot acc ss
      else if s = js ''..'' then
        (case acc of
           [] \<Rightarrow> norm_segs allowAboveRoot (if allowAboveRoot then [js ''..''] else []) ss
         | t # acc' \<Rightarrow>
             if t = js ''..'' then norm_segs allowAboveRoot (js ''..'' # acc) ss
             else norm_segs allowAboveRoot acc' ss)
      else norm_segs allowAboveRoot (s # acc) ss)"

definition normalizeString :: "jsstring \<Rightarrow> bool \<Rightarrow> jsstring" where
  "normalizeString p allowAboveRoot = join (js ''/'') (norm_segs allowAboveRoot [] (split_on 47 p))"

text \<open>The arguments come last one first; the working directory is the last resort.\<close>

fun resolve_loop :: "jsstring list \<Rightarrow> jsstring \<Rightarrow> jsstring \<times> bool" where
  "resolve_loop [] resolvedPath = (resolvedPath, False)"
| "resolve_loop (p # ps) resolvedPath =
     (case p of
        [] \<Rightarrow> resolve_loop ps resolvedPath
      | c # _ \<Rightarrow>
          if c = 47 then (p @ js ''/'' @ resolvedPath, True)
          else resolve_loop ps (p @ js ''/'' @ resolvedPath))"

definition path_resolve :: "jsstring \<Rightarrow> jsstring list \<Rightarrow> jsstring" where
  "path_resolve cwd args =
     (case resolve_loop (rev args @ [cwd]) [] of
        (resolvedPath, resolvedAbsolute) \<Rightarrow>
          let n = normalizeString resolvedPath (\<not> resolvedAbsolute)
          in if resolvedAbsolute then js ''/'' @ n
             else if n \<noteq> [] then n else js ''.'')"

text \<open>
  \<^verbatim>\<open>relative(from, to)\<close> resolves both paths, drops their common leading segments,
  climbs out of what is left of \<^verbatim>\<open>from\<close> and descends into what is left of \<^verbatim>\<open>to\<close>.
\<close>

definition segments :: "jsstring \<Rightarrow> jsstring list" where
  "segments p = filter (\<lambda>s. s \<noteq> []) (split_on 47 p)"

definition path_relative :: "jsstring \<Rightarrow> jsstring \<Rightarrow> jsstring \<Rightarrow> jsstring" where
  "path_relative cwd from to =
     (if from = to then []
      else
        let f = path_resolve cwd [from]; t = path_resolve cwd [to]
        in if f = t then []
           else
             let fs = segments f; ts = segments t;
                 n = length (longest_common_prefix fs ts)
             in join (js ''/'') (replicate (length fs - n) (js ''..'') @ drop n ts))"

subsection \<open>validatePath\<close>

definition msg_invalid_path :: jsstring where
  "msg_invalid_path = [28961, 21177, 12394, 12497, 12473, 58, 32, 12497, 12473, 12364, 25351,
     23450, 12373, 12428, 12390, 12356, 12414, 12379, 12435]"

definition msg_dangerous :: jsstring where
  "msg_dangerous = [19981, 27491, 12394, 12497, 12473, 58, 32, 21361, 38522, 12394, 12497,
     12479, 12540, 12531, 12364, 26908, 20986, 12373, 12428, 12414, 12375, 12383, 32, 45, 32]"

definition msg_outside :: jsstring where
  "msg_outside = [19981, 27491, 12394, 12497, 12473, 58, 32, 12505, 12540, 12473, 12487, 12451,
     12524, 12463, 12488, 12522, 22806, 12408, 12398, 12450, 12463, 12475, 12473, 32, 45, 32]"

definition msg_traversal :: jsstring where
  "msg_traversal = [19981, 27491, 12394, 12497, 12473, 58, 32, 27491, 35215, 21270, 24460,
     12418, 12497, 12473, 12488, 12521, 12496, 12540, 12469, 12523, 12364, 26908, 20986, 12373,
     12428, 12414, 12375, 12383, 32, 45, 32]"

definition msg_too_long :: jsstring where
  "msg_too_long = [19981, 27491, 12394, 12497, 12473, 58, 32, 12497, 12473, 12364, 38263,
     12377, 12366, 12414, 12377, 32, 45, 32]"

text \<open>The eleven entries of \<^verbatim>\<open>dangerousPatterns\<close>, in the order of the source.\<close>

definition pat_dotdot :: "jsstring \<Rightarrow> bool" where
  "pat_dotdot p = str_includes p (js ''..'')"

definition pat_tilde :: "jsstring \<Rightarrow> bool" where
  "pat_tilde p \<longleftrightarrow> 126 \<in> set p"

definition pat_unix_absolute :: "jsstring \<Rightarrow> bool" where
  "pat_unix_absolute p = (case p of [] \<Rightarrow> False | c # _ \<Rightarrow> c = 47)"

definition pat_windows_absolute :: "jsstring \<Rightarrow> bool" where
  "pat_windows_absolute p =
     (case p of a # b # c # _ \<Rightarrow> (is_upper a \<or> is_lower a) \<and> b = 58 \<and> c = 92 | _ \<Rightarrow> False)"

definition pat_nul :: "jsstring \<Rightarrow> bool" where
  "pat_nul p \<longleftrightarrow> 0 \<in> set p"

definition pat_symbols :: "jsstring \<Rightarrow> bool" where
  "pat_symbols p = list_ex (\<lambda>c. c \<in> set (js ''<>|*?\"'')) p"

definition pat_dots :: "jsstring \<Rightarrow> bool" where
  "pat_dots p = str_includes p (js ''..'')"

definition is_slash :: "nat \<Rightarrow> bool" where
  "is_slash c \<longleftrightarrow> c = 47 \<or> c = 92"

definition pat_slashes :: "jsstring \<Rightarrow> bool" where
  "pat_slashes p =
     anywhere (\<lambda>t. case t of a # b # _ \<Rightarrow> is_slash a \<and> is_slash b | _ \<Rightarrow> False) p"

definition executable_extensions :: "jsstring list" where
  "executable_extensions = map js [''exe'', ''bat'', ''cmd'', ''scr'', ''com'', ''pif'', ''vbs'',
     ''js'', ''jar'', ''ps1'']"

definition pat_executable :: "jsstring \<Rightarrow> bool" where
  "pat_executable p =
     list_ex (\<lambda>e. endsWith (map lower_ascii p) (js ''.'' @ e)) executable_extensions"

definition pat_reserved :: "jsstring \<Rightarrow> bool" where
  "pat_reserved p =
     (let q = map lower_ascii p
      in q \<in> set (map js [''con'', ''prn'', ''aux'', ''nul''])
         \<or> (length q = 4 \<and> take 3 q \<in> set (map js [''com'', ''lpt''])
             \<and> 49 \<le> q ! 3 \<and> q ! 3 \<le> 57))"

definition pat_control :: "jsstring \<Rightarrow> bool" where
  "pat_control p = list_ex (\<lambda>c. c \<le> 31 \<or> (127 \<le> c \<and> c \<le> 159)) p"

definition dangerousPatterns :: "(jsstring \<Rightarrow> bool) list" where
  "dangerousPatterns = [pat_dotdot, pat_tilde, pat_unix_absolute, pat_windows_absolute,
     pat_nul, pat_symbols, pat_dots, pat_slashes, pat_executable, pat_reserved, pat_control]"

text \<open>
  \<open>cwd\<close> is \<^verbatim>\<open>process.cwd()\<close>, which is also the default of \<^verbatim>\<open>baseDir\<close>. An empty
  \<^verbatim>\<open>userPath\<close> is falsy and rejected first.
\<close>

definition validatePath :: "jsstring \<Rightarrow> jsstring \<Rightarrow> jsstring \<Rightarrow> error + jsstring" where
  "validatePath cwd userPath baseDir =
     (if userPath = [] then Inl (Error msg_invalid_path)
      else if list_ex (\<lambda>pattern. pattern userPath) dangerousPatterns
      then Inl (Error (msg_dangerous @ userPath))
      else
        let resolved = path_resolve cwd [baseDir, userPath];
            normalizedBase = path_resolve cwd [baseDir]
        in if \<not> prefix normalizedBase resolved then Inl (Error (msg_outside @ userPath))
           else
             let relativePath = path_relative cwd normalizedBase resolved
             in if str_includes relativePath (js ''..'') \<or> prefix (js ''../'') relativePath
                then Inl (Error (msg_traversal @ userPath))
                else if length resolved > 260 then Inl (Error (msg_too_long @ userPath))
                else Inr resolved)"

subsection \<open>escapeHtml\<close>

definition escape_char :: "nat \<Rightarrow> jsstring" where
  "escape_char c =
     (if c = 38 then js ''&amp;''
      else if c = 60 then js ''&lt;''
      else if c = 62 then js ''&gt;''
      else if c = 34 then js ''&quot;''
      else if c = 39 then js ''&#39;''
      else [c])"

definition escapeHtml :: "jsstring \<Rightarrow> jsstring" where
  "escapeHtml text = concat (map escape_char text)"

subsection \<open>sanitizeError\<close>

text \<open>
  A literal followed by \<^verbatim>\<open>[class]+\<close>: the run is greedy and nothing follows it, so the
  match is the literal and the whole run, which must not be empty.
\<close>

definition lit_run :: "jsstring \<Rightarrow> (nat \<Rightarrow> bool) \<Rightarrow> matcher" where
  "lit_run l P xs =
     (if prefix l xs
      then (let n = length (takeWhile P (drop (length l) xs))
            in if n = 0 then None else Some (length l + n))
      else None)"

text \<open>\<^verbatim>\<open>/\/home\/[^\/\s]+/g\<close>, \<^verbatim>\<open>/C:\\Users\\[^\\]+/g\<close>, \<^verbatim>\<open>/\/Users\/[^\/\s]+/g\<close>,
  \<^verbatim>\<open>/\\Users\\[^\\]+/g\<close>.\<close>

definition m_home :: matcher where
  "m_home = lit_run (js ''/home/'') (\<lambda>c. c \<noteq> 47 \<and> \<not> is_space c)"

definition m_c_users :: matcher where
  "m_c_users = lit_run (js ''C:'' @ [92] @ js ''Users'' @ [92]) (\<lambda>c. c \<noteq> 92)"

definition m_users :: matcher where
  "m_users = lit_run (js ''/Users/'') (\<lambda>c. c \<noteq> 47 \<and> \<not> is_space c)"

definition m_backslash_users :: matcher where
  "m_backslash_users = lit_run ([92] @ js ''Users'' @ [92]) (\<lambda>c. c \<noteq> 92)"

text \<open>A lower-case literal matched under the \<^verbatim>\<open>i\<close> flag.\<close>

definition prefix_ci :: "jsstring \<Rightarrow> jsstring \<Rightarrow> bool" where
  "prefix_ci l xs = prefix l (map lower_ascii xs)"

text \<open>
  The tail \<^verbatim>\<open>[:\s]*['"]?[\w\-]+\<close> of the credential patterns, after \<open>n\<close> matched code
  units. The three classes are disjoint, so giving back part of a greedy run never helps:
  the match takes the whole run of \<^verbatim>\<open>[:\s]\<close>, a quote if one follows, and the whole run
  of \<^verbatim>\<open>[\w\-]\<close>, which must not be empty.
\<close>

definition is_quote :: "nat \<Rightarrow> bool" where
  "is_quote c \<longleftrightarrow> c = 39 \<or> c = 34"

definition is_word_or_hyphen :: "nat \<Rightarrow> bool" where
  "is_word_or_hyphen c \<longleftrightarrow> is_word c \<or> c = 45"

definition cred_tail :: "bool \<Rightarrow> nat \<Rightarrow> jsstring \<Rightarrow> nat option" where
  "cred_tail colon_and_quote n r =
     (let n1 = length (takeWhile (\<lambda>c. (colon_and_quote \<and> c = 58) \<or> is_space c) r);
          r2 = drop n1 r;
          n2 = (case r2 of [] \<Rightarrow> 0 | c # _ \<Rightarrow> if colon_and_quote \<and> is_quote c then 1 else 0);
          n3 = length (takeWhile is_word_or_hyphen (drop n2 r2))
      in if n3 = 0 then None else Some (n + n1 + n2 + n3))"

text \<open>\<^verbatim>\<open>/api[_-]?key[:\s]*['"]?[\w\-]+/gi\<close>\<close>

definition m_api_key :: matcher where
  "m_api_key xs =
     (if prefix_ci (js ''api'') xs
      then (let r = drop 3 xs;
                k = (case r of [] \<Rightarrow> 0 | c # _ \<Rightarrow> if c = 95 \<or> c = 45 then 1 else 0)
            in if prefix_ci (js ''key'') (drop k r)
               then cred_tail True (3 + k + 3) (drop (k + 3) r)
               else None)
      else None)"

text \<open>\<^verbatim>\<open>/password[:\s]*['"]?[\w\-]+/gi\<close> and the same for \<^verbatim>\<open>token\<close>, \<^verbatim>\<open>secret\<close>, \<^verbatim>\<open>auth\<close>.\<close>

definition m_keyword :: "jsstring \<Rightarrow> matcher" where
  "m_keyword k xs =
     (if prefix_ci k xs then cred_tail True (length k) (drop (length k) xs) else None)"

text \<open>\<^verbatim>\<open>/bearer[\s]*[\w\-]+/gi\<close>\<close>

definition m_bearer :: matcher where
  "m_bearer xs =
     (if prefix_ci (js ''bearer'') xs then cred_tail False 6 (drop 6 xs) else None)"

definition sensitivePatterns :: "matcher list" where
  "sensitivePatterns = [m_api_key, m_keyword (js ''password''), m_keyword (js ''token''),
     m_keyword (js ''secret''), m_keyword (js ''auth''), m_bearer]"

text \<open>\<^verbatim>\<open>String(index)\<close> and the other conversions of a non-negative integer to decimal.\<close>

function decimal :: "nat \<Rightarrow> jsstring" where
  "decimal n = (if n < 10 then [48 + n] else decimal (n div 10) @ [48 + n mod 10])"
  by pat_completeness auto
termination
  by (relation "measure id") auto

definition redaction :: "nat \<Rightarrow> jsstring" where
  "redaction index = js ''SENSITIVE_INFO_'' @ decimal index @ js ''_REDACTED''"

text \<open>The \<^verbatim>\<open>forEach\<close> over \<^verbatim>\<open>sensitivePatterns\<close>, with the index of each pattern.\<close>

fun redact :: "nat \<Rightarrow> matcher list \<Rightarrow> jsstring \<Rightarrow> jsstring" where
  "redact index [] msg = msg"
| "redact index (pattern # ps) msg =
     redact (Suc index) ps (replace_all pattern (redaction index) msg)"

text \<open>The four path replacements and the six redactions of \<^verbatim>\<open>sanitizeError\<close>, on a text.\<close>

definition sanitizeText :: "jsstring \<Rightarrow> jsstring" where
  "sanitizeText msg0 =
     (let msg1 = replace_all m_home (js ''/home/<user>'') msg0;
          msg2 = replace_all m_c_users (js ''C:'' @ [92] @ js ''Users'' @ [92] @ js ''<user>'') msg1;
          msg3 = replace_all m_users (js ''/Users/<user>'') msg2;
          msg4 = replace_all m_backslash_users ([92] @ js ''Users'' @ [92] @ js ''<user>'') msg3
      in redact 0 sensitivePatterns msg4)"

text \<open>
  \<^verbatim>\<open>sanitizeError(error).message\<close>: the text is \<^verbatim>\<open>error.message || String(error)\<close>. The
  other fields of the returned object (\<^verbatim>\<open>code\<close>, \<^verbatim>\<open>timestamp\<close>, \<^verbatim>\<open>sanitized\<close>) are read
  by no caller in the module.
\<close>

definition sanitizeError :: "error \<Rightarrow> jsstring" where
  "sanitizeError e =
     sanitizeText (if error_message e \<noteq> [] then error_message e else error_to_string e)"

subsection \<open>sanitizeEnv\<close>

definition sensitiveKeys :: "jsstring list" where
  "sensitiveKeys = map js [''AWS_SECRET_ACCESS_KEY'', ''DATABASE_PASSWORD'', ''API_KEY'',
     ''SECRET_KEY'', ''PRIVATE_KEY'', ''TOKEN'', ''PASSWORD'']"

definition sanitizeEnv :: "(jsstring \<times> jsstring) list \<Rightarrow> (jsstring \<times> jsstring) list" where
  "sanitizeEnv env = filter (\<lambda>(k, v). k \<notin> set sensitiveKeys) env"

subsection \<open>Config\<close>

definition ALLOWED_COMMANDS :: "jsstring list" where
  "ALLOWED_COMMANDS = map js [''git'', ''mkdir'', ''claude-code'', ''claude'']"

definition COMMAND_TIMEOUT :: nat where
  "COMMAND_TIMEOUT = 60000"

definition MAX_BUFFER :: nat where
  "MAX_BUFFER = 10 * 1024 * 1024"

definition AGENT_TIMEOUT :: nat where
  "AGENT_TIMEOUT = 120000"

subsection \<open>executeCommand\<close>

text \<open>
  What the module cannot decide is the platform's: the working directory, the environment
  variables, what a child process does, the timer, the clock and the random bytes.
  \<open>execFile\<close> is the process-spawn primitive; its outcome may depend on what happened
  before. Every call of the primitive and every start of a sandbox run is appended to a
  log of events, which the functions pass along.
\<close>

record spawn =
  sp_command :: jsstring
  sp_args :: "jsstring list"
  sp_timeout :: nat
  sp_maxBuffer :: nat
  sp_cwd :: jsstring
  sp_env :: "(jsstring \<times> jsstring) list"

datatype exec_outcome = Exited jsstring jsstring | Failed error

datatype event = Spawn spawn | SandboxRun jsstring nat

type_synonym trace = "event list"

record platform =
  cwd :: jsstring
  processEnv :: "(jsstring \<times> jsstring) list"
  execFile :: "trace \<Rightarrow> spawn \<Rightarrow> exec_outcome"
  timerWins :: "trace \<Rightarrow> bool"
  elapsed :: "trace \<Rightarrow> nat"
  randomBytes :: "trace \<Rightarrow> jsstring"
  toLowerCase :: "jsstring \<Rightarrow> jsstring"

record options =
  opt_timeout :: "nat option"
  opt_maxBuffer :: "nat option"
  opt_cwd :: "jsstring option"

record command_result =
  stdout :: jsstring
  stderr :: jsstring
  exitCode :: nat
  command :: jsstring
  args :: "jsstring list"

definition msg_not_allowed :: jsstring where
  "msg_not_allowed = [35377, 21487, 12373, 12428, 12390, 12356, 12394, 12356, 12467, 12510,
     12531, 12489, 58, 32]"

text \<open>\<^verbatim>\<open>arg.replace(/[;&|`$()<>\n\r\t]/g, '')\<close>\<close>

definition sanitizeArg :: "jsstring \<Rightarrow> jsstring" where
  "sanitizeArg arg = filter (\<lambda>c. c \<notin> set [59, 38, 124, 96, 36, 40, 41, 60, 62, 10, 13, 9]) arg"

text \<open>
  The allow-list comes first. Inside the \<^verbatim>\<open>try\<close>, the options of the spawn are built
  before the primitive is called, so a working directory that \<^verbatim>\<open>validatePath\<close> rejects
  raises before any process exists. Whatever is caught is thrown again as a new
  \<^verbatim>\<open>Error\<close> with the sanitized message.
\<close>

definition executeCommand ::
  "platform \<Rightarrow> jsstring \<Rightarrow> jsstring list \<Rightarrow> options \<Rightarrow> trace
     \<Rightarrow> (error + command_result) \<times> trace" where
  "executeCommand pf cmd cmdArgs opts log =
     (let timeout = (case opt_timeout opts of None \<Rightarrow> COMMAND_TIMEOUT | Some t \<Rightarrow> t);
          maxBuffer = (case opt_maxBuffer opts of None \<Rightarrow> MAX_BUFFER | Some b \<Rightarrow> b);
          dir = (case opt_cwd opts of None \<Rightarrow> cwd pf | Some d \<Rightarrow> d)
      in if cmd \<notin> set ALLOWED_COMMANDS then (Inl (Error (msg_not_allowed @ cmd)), log)
         else
           let sanitizedArgs = map sanitizeArg cmdArgs
           in (case validatePath (cwd pf) dir (cwd pf) of
                 Inl e \<Rightarrow> (Inl (Error (sanitizeError e)), log)
               | Inr validDir \<Rightarrow>
                   let sp = \<lparr>sp_command = cmd, sp_args = sanitizedArgs, sp_timeout = timeout,
                              sp_maxBuffer = maxBuffer, sp_cwd = validDir,
                              sp_env = sanitizeEnv (processEnv pf)\<rparr>
                   in (case execFile pf log sp of
                         Failed e \<Rightarrow> (Inl (Error (sanitizeError e)), log @ [Spawn sp])
                       | Exited out err \<Rightarrow>
                           (Inr \<lparr>stdout = out, stderr = err, exitCode = 0, command = cmd,
                                 args = sanitizedArgs\<rparr>, log @ [Spawn sp]))))"

section \<open>AgentSandbox\<close>

text \<open>
  An agent is a configuration object; \<^verbatim>\<open>priority\<close> may be missing. The fields that
  \<^verbatim>\<open>AgentSandbox\<close> and \<^verbatim>\<open>ParallelExecutor\<close> read are kept.
\<close>

record agent =
  agent_id :: jsstring
  agent_name :: jsstring
  agent_model :: jsstring
  agent_category :: jsstring
  agent_priority :: "jsstring option"
  agent_canAutoFix :: bool
  agent_errorTypes :: "jsstring list"

datatype level = Critical | Error_level | Warning | Info | Suggestion

record issue =
  issue_level :: level
  issue_message :: jsstring
  issue_category :: jsstring
  issue_priority :: "jsstring option"
  issue_agentId :: jsstring
  issue_autoFixAvailable :: bool
  issue_file :: "jsstring option"
  issue_line :: "nat option"
  issue_type :: jsstring

record ExecutionResult =
  agentId :: jsstring
  agentName :: jsstring
  issues :: "issue list"
  rawOutput :: jsstring
  executionTime :: nat
  error :: "jsstring option"
  sandboxId :: "jsstring option"

subsection \<open>parseAgentOutput\<close>

text \<open>
  The keys of \<^verbatim>\<open>patterns\<close> and the alternatives of each pattern,
  \<^verbatim>\<open>/(?:A|B|C):\s*(.{1,500}?)(?:\n|$)/g\<close>: \<open>A\<close> is the English word, \<open>B\<close> the Japanese
  word (U+91CD U+5927 for critical, U+30A8 U+30E9 U+30FC for error, U+8B66 U+544A for
  warning, U+60C5 U+5831 for info, U+63D0 U+6848 for suggestion) and \<open>C\<close> an emoji, a
  surrogate pair (U+1F534, the red circle, for critical and for error alike; U+1F7E1,
  U+1F535, U+1F4A1 for the others). The alternatives of one pattern start with different
  code units, so at most one of them matches at a position.
\<close>

definition levels :: "level list" where
  "levels = [Critical, Error_level, Warning, Info, Suggestion]"

fun markers :: "level \<Rightarrow> jsstring list" where
  "markers Critical = [js ''CRITICAL'', [37325, 22823], [55357, 56628]]"
| "markers Error_level = [js ''ERROR'', [12456, 12521, 12540], [55357, 56628]]"
| "markers Warning = [js ''WARNING'', [35686, 21578], [55357, 57313]]"
| "markers Info = [js ''INFO'', [24773, 22577], [55357, 56629]]"
| "markers Suggestion = [js ''SUGGESTION'', [25552, 26696], [55357, 56481]]"

text \<open>
  \<^verbatim>\<open>(.{1,500}?)(?:\n|$)\<close>: the lazy quantifier first tries to finish (a newline, or the
  end of the input) and takes one more code unit otherwise, at most 500 in all. The
  result is the capture and the number of code units matched.
\<close>

fun lazy_dots :: "nat \<Rightarrow> jsstring \<Rightarrow> jsstring \<Rightarrow> (jsstring \<times> nat) option" where
  "lazy_dots fuel captured [] = Some (captured, length captured)"
| "lazy_dots fuel captured (c # cs) =
     (if c = 10 then Some (captured, Suc (length captured))
      else if fuel = 0 \<or> is_line_terminator c then None
      else lazy_dots (fuel - 1) (captured @ [c]) cs)"

definition capture_message :: "jsstring \<Rightarrow> (jsstring \<times> nat) option" where
  "capture_message r =
     (case r of
        [] \<Rightarrow> None
      | c # cs \<Rightarrow> if is_line_terminator c then None else lazy_dots 499 [c] cs)"

text \<open>
  \<^verbatim>\<open>\s*\<close> is greedy: it takes the whole run of white space first and gives it back one
  code unit at a time while the rest of the pattern fails.
\<close>

definition try_spaces :: "nat \<Rightarrow> jsstring \<Rightarrow> (jsstring \<times> nat) option" where
  "try_spaces j r = map_option (\<lambda>(captured, n). (captured, j + n)) (capture_message (drop j r))"

fun after_spaces :: "nat \<Rightarrow> jsstring \<Rightarrow> (jsstring \<times> nat) option" where
  "after_spaces 0 r = try_spaces 0 r"
| "after_spaces (Suc j) r =
     (case try_spaces (Suc j) r of Some m \<Rightarrow> Some m | None \<Rightarrow> after_spaces j r)"

text \<open>The length of the match at the head of the input, and the capture.\<close>

definition m_severity :: "level \<Rightarrow> jsstring \<Rightarrow> (nat \<times> jsstring) option" where
  "m_severity l xs =
     (case find (\<lambda>m. prefix m xs) (markers l) of
        None \<Rightarrow> None
      | Some m \<Rightarrow>
          (case drop (length m) xs of
             [] \<Rightarrow> None
           | c # r \<Rightarrow>
               if c \<noteq> 58 then None
               else (case after_spaces (length (takeWhile is_space r)) r of
                       None \<Rightarrow> None
                     | Some (captured, n) \<Rightarrow> Some (length m + 1 + n, captured))))"

text \<open>\<^verbatim>\<open>[...output.matchAll(pattern)]\<close>: the matches from left to right, none overlapping.\<close>

function match_all :: "(jsstring \<Rightarrow> (nat \<times> 'a) option) \<Rightarrow> jsstring \<Rightarrow> 'a list" where
  "match_all m [] = (case m [] of None \<Rightarrow> [] | Some (n, a) \<Rightarrow> [a])"
| "match_all m (x # xs) =
     (case m (x # xs) of
        None \<Rightarrow> match_all m xs
      | Some (n, a) \<Rightarrow>
          if n = 0 then a # match_all m xs else a # match_all m (drop n (x # xs)))"
  by pat_completeness auto
termination
  by (relation "measure (\<lambda>(m, xs). length xs)") auto

text \<open>\<^verbatim>\<open>string.match(pattern)\<close> without the \<^verbatim>\<open>g\<close> flag: the leftmost match.\<close>

fun first_match :: "(jsstring \<Rightarrow> 'a option) \<Rightarrow> jsstring \<Rightarrow> 'a option" where
  "first_match m [] = m []"
| "first_match m (x # xs) =
     (case m (x # xs) of Some a \<Rightarrow> Some a | None \<Rightarrow> first_match m xs)"

text \<open>
  \<^verbatim>\<open>/(?:in|at|F:?)\s*([^\s:]{1,200})(?::(\d+))?/\<close>, where \<open>F\<close> is the Japanese word for
  file (U+30D5 U+30A1 U+30A4 U+30EB): the two groups. The runs are greedy and the classes
  that meet are disjoint, so no backtracking changes the match.
\<close>

definition file_word :: jsstring where
  "file_word = [12501, 12449, 12452, 12523]"

definition m_file :: "jsstring \<Rightarrow> (jsstring \<times> jsstring option) option" where
  "m_file xs =
     (case find (\<lambda>k. prefix k xs) [js ''in'', js ''at'', file_word] of
        None \<Rightarrow> None
      | Some k \<Rightarrow>
          let r0 = drop (length k) xs;
              r1 = (if k = file_word \<and> prefix [58] r0 then drop 1 r0 else r0);
              r2 = dropWhile is_space r1;
              name = take 200 (takeWhile (\<lambda>c. \<not> is_space c \<and> c \<noteq> 58) r2)
          in if name = [] then None
             else
               let r3 = drop (length name) r2;
                   digits = (if prefix [58] r3 then takeWhile is_digit (drop 1 r3) else [])
               in Some (name, if digits = [] then None else Some digits))"

text \<open>\<^verbatim>\<open>parseInt\<close> of a string of decimal digits.\<close>

definition parseInt :: "jsstring \<Rightarrow> nat" where
  "parseInt ds = foldl (\<lambda>n c. 10 * n + (c - 48)) 0 ds"

text \<open>\<^verbatim>\<open>errorType.replace('-', ' ')\<close> replaces the first hyphen only.\<close>

definition replace_hyphen :: "jsstring \<Rightarrow> jsstring" where
  "replace_hyphen s =
     (let a = takeWhile (\<lambda>c. c \<noteq> 45) s
      in case drop (length a) s of [] \<Rightarrow> a | _ # b \<Rightarrow> a @ [32] @ b)"

definition classify :: "platform \<Rightarrow> agent \<Rightarrow> jsstring \<Rightarrow> jsstring" where
  "classify pf a msg =
     (case find (\<lambda>errorType. str_includes (toLowerCase pf msg) (replace_hyphen errorType))
             (take 10 (agent_errorTypes a)) of
        None \<Rightarrow> js ''general''
      | Some errorType \<Rightarrow> if errorType = [] then js ''general'' else errorType)"

definition make_issue :: "platform \<Rightarrow> agent \<Rightarrow> level \<Rightarrow> jsstring \<Rightarrow> issue" where
  "make_issue pf a l captured =
     (let msg = escapeHtml (trim captured);
          fileMatch = first_match m_file msg
      in \<lparr>issue_level = l,
          issue_message = msg,
          issue_category = agent_category a,
          issue_priority = agent_priority a,
          issue_agentId = agent_id a,
          issue_autoFixAvailable = agent_canAutoFix a,
          issue_file = map_option (\<lambda>(name, digits). escapeHtml name) fileMatch,
          issue_line =
            (case fileMatch of
               Some (name, Some digits) \<Rightarrow>
                 (let lineNum = parseInt digits
                  in if 0 < lineNum \<and> lineNum < 1000000 then Some lineNum else None)
             | _ \<Rightarrow> None),
          issue_type = classify pf a msg\<rparr>)"

definition level_issues :: "platform \<Rightarrow> agent \<Rightarrow> jsstring \<Rightarrow> level \<Rightarrow> issue list" where
  "level_issues pf a out l = map (make_issue pf a l) (take 100 (match_all (m_severity l) out))"

definition parseAgentOutput :: "platform \<Rightarrow> agent \<Rightarrow> jsstring \<Rightarrow> issue list" where
  "parseAgentOutput pf a output =
     (if output = [] then []
      else
        let out = take (1024 * 1024) output
        in take 1000 (concat (map (level_issues pf a out) levels)))"

subsection \<open>sanitizeResult\<close>

definition sanitizeIssue :: "issue \<Rightarrow> issue" where
  "sanitizeIssue i =
     i\<lparr>issue_message := escapeHtml (issue_message i),
       issue_file := (case issue_file i of
                        None \<Rightarrow> None
                      | Some f \<Rightarrow> if f = [] then None else Some (escapeHtml f))\<rparr>"

definition sanitizeResult :: "ExecutionResult \<Rightarrow> ExecutionResult" where
  "sanitizeResult r =
     \<lparr>agentId = escapeHtml (agentId r),
      agentName = escapeHtml (agentName r),
      issues = map sanitizeIssue (issues r),
      rawOutput = escapeHtml (rawOutput r),
      executionTime = executionTime r,
      error = (case error r of
                 None \<Rightarrow> None
               | Some e \<Rightarrow> if e = [] then None else Some (escapeHtml e)),
      sandboxId = sandboxId r\<rparr>"

subsection \<open>runAgentInSandbox and execute\<close>

definition msg_claude_missing :: jsstring where
  "msg_claude_missing = js ''Claude Code/Claude'' @ [12467, 12510, 12531, 12489, 12364, 35211,
     12388, 12363, 12426, 12414, 12379, 12435]"

definition msg_timeout :: jsstring where
  "msg_timeout = [12456, 12540, 12472, 12455, 12531, 12488, 23455, 34892, 12479, 12452, 12512,
     12450, 12454, 12488]"

definition maxMemory :: nat where
  "maxMemory = 512 * 1024 * 1024"

text \<open>\<^verbatim>\<open>getClaudeCommand\<close>: the first of the two commands whose \<^verbatim>\<open>--version\<close> succeeds.\<close>

fun try_commands ::
  "platform \<Rightarrow> jsstring list \<Rightarrow> trace \<Rightarrow> (error + jsstring) \<times> trace" where
  "try_commands pf [] log = (Inl (Error msg_claude_missing), log)"
| "try_commands pf (cmd # cmds) log =
     (case executeCommand pf cmd [js ''--version'']
             \<lparr>opt_timeout = Some 1000, opt_maxBuffer = None, opt_cwd = None\<rparr> log of
        (Inr r, log') \<Rightarrow> (Inr cmd, log')
      | (Inl e, log') \<Rightarrow> try_commands pf cmds log')"

definition getClaudeCommand :: "platform \<Rightarrow> trace \<Rightarrow> (error + jsstring) \<times> trace" where
  "getClaudeCommand pf log = try_commands pf [js ''claude-code'', js ''claude''] log"

definition commandArgs :: "agent \<Rightarrow> jsstring \<Rightarrow> jsstring list \<Rightarrow> nat \<Rightarrow> jsstring list" where
  "commandArgs a target files iteration =
     [js ''agent'', js ''run'', agent_id a, js ''--model'', agent_model a,
      js ''--target'', target, js ''--sandbox-mode'']
     @ (if files \<noteq> [] then [js ''--files'', join (js '','') files] else [])
     @ (if iteration > 1 then [js ''--iteration'', decimal iteration] else [])
     @ [js ''--max-memory'', decimal maxMemory, js ''--timeout'', decimal AGENT_TIMEOUT]"

text \<open>
  The sandbox object that \<^verbatim>\<open>createSandbox\<close> builds (a file reader and a terminal, both
  closures) is passed to \<^verbatim>\<open>runAgentInSandbox\<close> and never used there; building it cannot
  raise for a list of strings. The result is the parsed issues and the raw output.
\<close>

definition runAgentInSandbox ::
  "platform \<Rightarrow> agent \<Rightarrow> jsstring \<Rightarrow> jsstring list \<Rightarrow> nat \<Rightarrow> trace
     \<Rightarrow> (error + issue list \<times> jsstring) \<times> trace" where
  "runAgentInSandbox pf a target files iteration log =
     (case getClaudeCommand pf log of
        (Inl e, log1) \<Rightarrow> (Inl e, log1)
      | (Inr claudeCmd, log1) \<Rightarrow>
          (case executeCommand pf claudeCmd (commandArgs a target files iteration)
                  \<lparr>opt_timeout = Some AGENT_TIMEOUT, opt_maxBuffer = None, opt_cwd = None\<rparr> log1 of
             (Inl e, log2) \<Rightarrow> (Inl e, log2)
           | (Inr result, log2) \<Rightarrow>
               (Inr (parseAgentOutput pf a (stdout result), stdout result), log2)))"

text \<open>
  The body of the \<^verbatim>\<open>try\<close> block of \<^verbatim>\<open>execute\<close>: the run raced against the timer.
  When the timer wins, the race rejects with the timeout error; the run is not cancelled,
  its spawns stay in the log.
\<close>

definition execute_try ::
  "platform \<Rightarrow> agent \<Rightarrow> jsstring \<Rightarrow> jsstring list \<Rightarrow> nat \<Rightarrow> jsstring \<Rightarrow> trace
     \<Rightarrow> (error + ExecutionResult) \<times> trace" where
  "execute_try pf a target files iteration sid log =
     (case runAgentInSandbox pf a target files iteration log of
        (run, log') \<Rightarrow>
          (case (if timerWins pf log' then Inl (Error msg_timeout) else run) of
             Inl e \<Rightarrow> (Inl e, log')
           | Inr (found, raw) \<Rightarrow>
               (Inr (sanitizeResult
                       \<lparr>agentId = agent_id a, agentName = agent_name a, issues = found,
                        rawOutput = raw, executionTime = elapsed pf log', error = None,
                        sandboxId = Some sid\<rparr>), log')))"

text \<open>
  \<^verbatim>\<open>execute\<close>: the start of the run is logged; then the \<^verbatim>\<open>try\<close> block, and the
  \<^verbatim>\<open>catch\<close> that turns an exception into a result.
\<close>

definition execute ::
  "platform \<Rightarrow> agent \<Rightarrow> jsstring \<Rightarrow> jsstring list \<Rightarrow> nat \<Rightarrow> trace
     \<Rightarrow> ExecutionResult \<times> trace" where
  "execute pf a target files iteration log0 =
     (let log = log0 @ [SandboxRun (agent_id a) iteration];
          sid = randomBytes pf log
      in case execute_try pf a target files iteration sid log of
           (Inr r, log') \<Rightarrow> (r, log')
         | (Inl e, log') \<Rightarrow>
             (\<lparr>agentId = agent_id a, agentName = agent_name a, issues = [], rawOutput = [],
               executionTime = elapsed pf log', error = Some (sanitizeError e),
               sandboxId = Some sid\<rparr>, log'))"

section \<open>ParallelExecutor\<close>

subsection \<open>groupByPriority\<close>

text \<open>
  \<^verbatim>\<open>groups\<close> is an object literal with the four tiers as own properties; it inherits
  the properties of \<^verbatim>\<open>Object.prototype\<close>. \<^verbatim>\<open>groups[agent.priority]\<close> converts the
  priority to a property key (a missing one to \<^verbatim>\<open>"undefined"\<close>). For an inherited name the
  value is truthy and has no \<^verbatim>\<open>push\<close>, so the call raises a \<^verbatim>\<open>TypeError\<close>; for any other
  name it is \<^verbatim>\<open>undefined\<close> and the agent goes to \<^verbatim>\<open>medium\<close>.
\<close>

record groups =
  critical :: "agent list"
  high :: "agent list"
  medium :: "agent list"
  low :: "agent list"

definition object_prototype_keys :: "jsstring list" where
  "object_prototype_keys = map js [''constructor'', ''__defineGetter__'', ''__defineSetter__'',
     ''hasOwnProperty'', ''__lookupGetter__'', ''__lookupSetter__'', ''isPrototypeOf'',
     ''propertyIsEnumerable'', ''toString'', ''valueOf'', ''__proto__'', ''toLocaleString'']"

definition property_key :: "jsstring option \<Rightarrow> jsstring" where
  "property_key p = (case p of None \<Rightarrow> js ''undefined'' | Some k \<Rightarrow> k)"

definition msg_push :: jsstring where
  "msg_push = js ''groups[agent.priority].push is not a function''"

fun group_loop :: "agent list \<Rightarrow> groups \<Rightarrow> error + groups" where
  "group_loop [] g = Inr g"
| "group_loop (a # as) g =
     (let k = property_key (agent_priority a)
      in if k = js ''critical'' then group_loop as (g\<lparr>critical := critical g @ [a]\<rparr>)
         else if k = js ''high'' then group_loop as (g\<lparr>high := high g @ [a]\<rparr>)
         else if k = js ''medium'' then group_loop as (g\<lparr>medium := medium g @ [a]\<rparr>)
         else if k = js ''low'' then group_loop as (g\<lparr>low := low g @ [a]\<rparr>)
         else if k \<in> set object_prototype_keys then Inl (TypeError msg_push)
         else group_loop as (g\<lparr>medium := medium g @ [a]\<rparr>))"

definition groupByPriority :: "agent list \<Rightarrow> error + agent list list" where
  "groupByPriority agents =
     (case group_loop agents \<lparr>critical = [], high = [], medium = [], low = []\<rparr> of
        Inl e \<Rightarrow> Inl e
      | Inr g \<Rightarrow> Inr (filter (\<lambda>gr. gr \<noteq> []) [critical g, high g, medium g, low g]))"

subsection \<open>executeAgents\<close>

text \<open>
  The sandboxes of a group are started in the order of the group, and the results of
  \<^verbatim>\<open>Promise.allSettled\<close> come in that order. \<^verbatim>\<open>execute\<close> catches what its run raises, so
  every promise of a group is fulfilled and the \<^verbatim>\<open>rejected\<close> branch is not taken. The
  runs of a group are logged one after the other.
\<close>

fun run_group ::
  "platform \<Rightarrow> agent list \<Rightarrow> jsstring \<Rightarrow> jsstring list \<Rightarrow> nat \<Rightarrow> trace
     \<Rightarrow> ExecutionResult list \<times> trace" where
  "run_group pf [] target files iteration log = ([], log)"
| "run_group pf (a # as) target files iteration log =
     (case execute pf a target files iteration log of
        (r, log1) \<Rightarrow>
          (case run_group pf as target files iteration log1 of
             (rs, log2) \<Rightarrow> (r # rs, log2)))"

fun run_groups ::
  "platform \<Rightarrow> nat \<Rightarrow> agent list list \<Rightarrow> jsstring \<Rightarrow> jsstring list \<Rightarrow> nat \<Rightarrow> trace
     \<Rightarrow> ExecutionResult list \<times> trace" where
  "run_groups pf maxConcurrency [] target files iteration log = ([], log)"
| "run_groups pf maxConcurrency (grp # gs) target files iteration log =
     (let limitedGroup = take maxConcurrency grp
      in case run_group pf limitedGroup target files iteration log of
           (groupResults, log1) \<Rightarrow>
             (case run_groups pf maxConcurrency gs target files iteration log1 of
                (results, log2) \<Rightarrow> (groupResults @ results, log2)))"

text \<open>
  \<^verbatim>\<open>groupByPriority\<close> is called outside every \<^verbatim>\<open>try\<close>: what it raises rejects the promise
  of \<^verbatim>\<open>executeAgents\<close>.
\<close>

definition executeAgents ::
  "platform \<Rightarrow> agent list \<Rightarrow> jsstring list \<Rightarrow> jsstring \<Rightarrow> nat \<Rightarrow> trace
     \<Rightarrow> (error + ExecutionResult list) \<times> trace" where
  "executeAgents pf agents files target iteration log =
     (if agents = [] then (Inr [], log)
      else
        let maxConcurrency = min (length agents) 4
        in case groupByPriority agents of
             Inl e \<Rightarrow> (Inl e, log)
           | Inr gs \<Rightarrow>
               (case run_groups pf maxConcurrency gs target files iteration log of
                  (results, log') \<Rightarrow> (Inr results, log')))"

section \<open>ResultCache\<close>

subsection \<open>Objects and references\<close>

text \<open>
  The cache holds objects, and JavaScript passes objects by reference. An object lives
  in a store under a reference; changing it through one reference is seen through every
  other. A value is a tree, as \<^verbatim>\<open>JSON.stringify\<close> sees it.
\<close>

datatype jsvalue =
    JUndefined
  | JNull
  | JBool bool
  | JNumber int
  | JString jsstring
  | JArray "jsvalue list"
  | JObject "(jsstring \<times> jsvalue) list"

type_synonym ref = nat

record store =
  cells :: "ref \<Rightarrow> jsvalue option"
  next_ref :: ref

definition alloc :: "jsvalue \<Rightarrow> store \<Rightarrow> ref \<times> store" where
  "alloc v h = (next_ref h, h\<lparr>cells := (cells h)(next_ref h \<mapsto> v), next_ref := Suc (next_ref h)\<rparr>)"

text \<open>An assignment through a reference, such as \<^verbatim>\<open>o.issues = []\<close> or \<^verbatim>\<open>o.issues.push(i)\<close>.\<close>

definition mutate :: "ref \<Rightarrow> (jsvalue \<Rightarrow> jsvalue) \<Rightarrow> store \<Rightarrow> store" where
  "mutate a f h = (case cells h a of None \<Rightarrow> h | Some v \<Rightarrow> h\<lparr>cells := (cells h)(a \<mapsto> f v)\<rparr>)"

text \<open>
  \<^verbatim>\<open>JSON.parse(JSON.stringify(v))\<close>: a property whose value is \<^verbatim>\<open>undefined\<close> is left
  out, an \<^verbatim>\<open>undefined\<close> element of an array becomes \<^verbatim>\<open>null\<close>; \<^verbatim>\<open>JSON.stringify(undefined)\<close>
  is \<^verbatim>\<open>undefined\<close>, which \<^verbatim>\<open>JSON.parse\<close> rejects.
\<close>

fun json_copy :: "jsvalue \<Rightarrow> jsvalue"
  and json_copy_elements :: "jsvalue list \<Rightarrow> jsvalue list"
  and json_copy_properties :: "(jsstring \<times> jsvalue) list \<Rightarrow> (jsstring \<times> jsvalue) list" where
  "json_copy (JArray vs) = JArray (json_copy_elements vs)"
| "json_copy (JObject ps) = JObject (json_copy_properties ps)"
| "json_copy JUndefined = JUndefined"
| "json_copy JNull = JNull"
| "json_copy (JBool b) = JBool b"
| "json_copy (JNumber n) = JNumber n"
| "json_copy (JString s) = JString s"
| "json_copy_elements [] = []"
| "json_copy_elements (v # vs) =
     (if v = JUndefined then JNull else json_copy v) # json_copy_elements vs"
| "json_copy_properties [] = []"
| "json_copy_properties ((k, v) # ps) =
     (if v = JUndefined then json_copy_properties ps
      else (k, json_copy v) # json_copy_properties ps)"

definition deep_copy :: "jsvalue \<Rightarrow> error + jsvalue" where
  "deep_copy v =
     (if v = JUndefined then Inl (SyntaxError (js ''\"undefined\" is not valid JSON''))
      else Inr (json_copy v))"

subsection \<open>The cache\<close>

text \<open>
  \<^verbatim>\<open>this.cache\<close> is a \<^verbatim>\<open>Map\<close>: it iterates in the order of insertion, and setting a key
  that is present keeps its place. An entry holds a reference to the stored object and
  the time of its insertion.
\<close>

record entry =
  result :: ref
  timestamp :: int

record ResultCache =
  cache :: "(jsstring \<times> entry) list"
  ttl :: int
  maxSize :: nat

definition new_ResultCache :: ResultCache where
  "new_ResultCache = \<lparr>cache = [], ttl = 15 * 60 * 1000, maxSize = 100\<rparr>"

fun map_set :: "jsstring \<Rightarrow> entry \<Rightarrow> (jsstring \<times> entry) list \<Rightarrow> (jsstring \<times> entry) list" where
  "map_set k v [] = [(k, v)]"
| "map_set k v ((k', v') # es) = (if k' = k then (k, v) # es else (k', v') # map_set k v es)"

definition map_delete :: "jsstring \<Rightarrow> (jsstring \<times> entry) list \<Rightarrow> (jsstring \<times> entry) list" where
  "map_delete k es = filter (\<lambda>(k', v). k' \<noteq> k) es"

text \<open>
  \<^verbatim>\<open>evictOldest\<close>: the loop starts from \<^verbatim>\<open>oldestTime = Date.now()\<close> and keeps an entry
  only if its time stamp is smaller. \<^verbatim>\<open>if (oldestKey)\<close> is false for \<^verbatim>\<open>null\<close> and for the
  empty string.
\<close>

fun oldest :: "(jsstring \<times> entry) list \<Rightarrow> jsstring option \<Rightarrow> int \<Rightarrow> jsstring option" where
  "oldest [] oldestKey oldestTime = oldestKey"
| "oldest ((key, v) # es) oldestKey oldestTime =
     (if timestamp v < oldestTime then oldest es (Some key) (timestamp v)
      else oldest es oldestKey oldestTime)"

definition evictOldest :: "int \<Rightarrow> ResultCache \<Rightarrow> ResultCache" where
  "evictOldest now c =
     (case oldest (cache c) None now of
        None \<Rightarrow> c
      | Some oldestKey \<Rightarrow>
          if oldestKey = [] then c else c\<lparr>cache := map_delete oldestKey (cache c)\<rparr>)"

text \<open>
  \<^verbatim>\<open>get\<close> and \<^verbatim>\<open>set\<close> on the key that \<^verbatim>\<open>getCacheKey\<close> computes (a SHA-256 digest of the
  agent, the file digests, the iteration and the quarter of an hour); \<open>now\<close> is what
  \<^verbatim>\<open>Date.now()\<close> returns. \<^verbatim>\<open>get\<close> returns \<^verbatim>\<open>cached.result\<close>, the stored reference itself.
\<close>

definition cache_get :: "int \<Rightarrow> jsstring \<Rightarrow> ResultCache \<Rightarrow> ref option \<times> ResultCache" where
  "cache_get now key c =
     (case map_of (cache c) key of
        None \<Rightarrow> (None, c)
      | Some cached \<Rightarrow>
          if now - timestamp cached < ttl c then (Some (result cached), c)
          else (None, c\<lparr>cache := map_delete key (cache c)\<rparr>))"

text \<open>
  \<^verbatim>\<open>set\<close>: the eviction reads the clock first (\<open>now_evict\<close>), the stored entry is stamped
  afterwards (\<open>now_store\<close>). \<open>r\<close> refers to the caller's object. When the copy raises, the
  eviction has already happened.
\<close>

definition cache_set ::
  "int \<Rightarrow> int \<Rightarrow> jsstring \<Rightarrow> ref \<Rightarrow> ResultCache \<times> store \<Rightarrow> error option \<times> ResultCache \<times> store" where
  "cache_set now_evict now_store key r s =
     (case s of
        (c, h) \<Rightarrow>
          let c1 = (if length (cache c) \<ge> maxSize c then evictOldest now_evict c else c)
          in (case deep_copy (case cells h r of None \<Rightarrow> JUndefined | Some v \<Rightarrow> v) of
                Inl e \<Rightarrow> (Some e, c1, h)
              | Inr deepCopy \<Rightarrow>
                  (case alloc deepCopy h of
                     (a, h1) \<Rightarrow>
                       (None,
                        c1\<lparr>cache := map_set key \<lparr>result = a, timestamp = now_store\<rparr> (cache c1)\<rparr>,
                        h1))))"

section \<open>The tiers, as the specification words them\<close>

text \<open>
  The specification partitions the workers into the four tiers, in the order critical,
  high, medium, low; a worker whose priority is none of the four counts as medium. A
  priority is \<^emph>\<open>inherited\<close> when it names a property that every object inherits.
\<close>

definition inherited_priority :: "agent \<Rightarrow> bool" where
  "inherited_priority a \<longleftrightarrow> property_key (agent_priority a) \<in> set object_prototype_keys"

definition tier_names :: "jsstring list" where
  "tier_names = [js ''critical'', js ''high'', js ''medium'', js ''low'']"

definition tier_of :: "agent \<Rightarrow> jsstring" where
  "tier_of a =
     (let k = property_key (agent_priority a)
      in if k = js ''critical'' then js ''critical''
         else if k = js ''high'' then js ''high''
         else if k = js ''low'' then js ''low''
         else js ''medium'')"

definition tier :: "jsstring \<Rightarrow> agent list \<Rightarrow> agent list" where
  "tier t agents = filter (\<lambda>a. tier_of a = t) agents"

text \<open>The workers that a call runs: of each tier, the first \<open>min (length agents) 4\<close>.\<close>

definition selected :: "agent list \<Rightarrow> agent list" where
  "selected agents = concat (map (\<lambda>t. take (min (length agents) 4) (tier t agents)) tier_names)"

text \<open>
  \<open>r\<close> is the result of a run of \<open>a\<close>: either a success, with no error and the escaped id
  and name of the agent, or a failure, with an error text that is not empty, no issues
  and the id and name of the agent.
\<close>

definition result_for :: "agent \<Rightarrow> ExecutionResult \<Rightarrow> bool" where
  "result_for a r \<longleftrightarrow>
     (error r = None \<and> agentId r = escapeHtml (agent_id a)
        \<and> agentName r = escapeHtml (agent_name a))
     \<or> ((case error r of None \<Rightarrow> False | Some m \<Rightarrow> m \<noteq> []) \<and> issues r = []
        \<and> agentId r = agent_id a \<and> agentName r = agent_name a)"

text \<open>The sandbox runs of a log, in order, and its spawns.\<close>

fun sandbox_runs :: "trace \<Rightarrow> (jsstring \<times> nat) list" where
  "sandbox_runs [] = []"
| "sandbox_runs (Spawn sp # es) = sandbox_runs es"
| "sandbox_runs (SandboxRun i n # es) = (i, n) # sandbox_runs es"


section \<open>Lines\<close>


section \<open>Path segments\<close>

text \<open>
  A segment of a normalised path: not empty, neither \<^verbatim>\<open>.\<close> nor \<^verbatim>\<open>..\<close>, and without a
  slash.
\<close>

definition plain :: "jsstring \<Rightarrow> bool" where
  "plain s \<longleftrightarrow> s \<noteq> [] \<and> s \<noteq> [46] \<and> s \<noteq> [46, 46] \<and> 47 \<notin> set s"

section \<open>HTML-special characters\<close>


section \<open>Example inputs\<close>

text \<open>A platform whose child processes all succeed, printing \<^verbatim>\<open>ok\<close>, in \<^verbatim>\<open>/srv/app\<close>.\<close>

definition demo_platform :: platform where
  "demo_platform =
     \<lparr>cwd = js ''/srv/app'',
      processEnv = [(js ''TOKEN'', js ''x''), (js ''PATH'', js ''/bin'')],
      execFile = (\<lambda>log sp. Exited (js ''ok'') []),
      timerWins = (\<lambda>log. False),
      elapsed = (\<lambda>log. 5),
      randomBytes = (\<lambda>log. js ''00ff00ff00ff00ff''),
      toLowerCase = map lower_ascii\<rparr>"


definition no_options :: options where
  "no_options = \<lparr>opt_timeout = None, opt_maxBuffer = None, opt_cwd = None\<rparr>"

text \<open>
  Workers: \<open>sec\<close> and \<open>doc\<close> are the catalog of the specification's end-to-end scenario;
  the others have the priority given.
\<close>

definition worker :: "string \<Rightarrow> string option \<Rightarrow> agent" where
  "worker n p =
     \<lparr>agent_id = js n, agent_name = js n, agent_model = js ''sonnet'',
      agent_category = js ''quality'', agent_priority = map_option js p,
      agent_canAutoFix = False, agent_errorTypes = [js ''xss'', js ''sql-injection'']\<rparr>"

definition sec :: agent where
  "sec = worker ''sec'' (Some ''critical'')"

definition doc :: agent where
  "doc = worker ''doc'' (Some ''low'')"

definition catalog :: "agent list" where
  "catalog = [sec, doc]"

definition five_medium :: "agent list" where
  "five_medium = map (\<lambda>n. worker n (Some ''medium'')) [''w1'', ''w2'', ''w3'', ''w4'', ''w5'']"

definition five_urgent :: "agent list" where
  "five_urgent = map (\<lambda>n. worker n (Some ''urgent'')) [''u1'', ''u2'', ''u3'', ''u4'', ''u5'']"

definition mixed :: "agent list" where
  "mixed = [worker ''lint'' (Some ''urgent''), sec, worker ''style'' None]"

text \<open>
  A caller's result object under reference 0, a key, an assignment that replaces the
  list of issues, and a run of \<^verbatim>\<open>set\<close> calls on a list of keys, all read off one clock
  value.
\<close>

definition store0 :: store where
  "store0 =
     \<lparr>cells = Map.empty(0 \<mapsto> JObject [(js ''agentId'', JString (js ''sec'')), (js ''issues'', JArray [])]),
      next_ref = 1\<rparr>"

definition key0 :: jsstring where
  "key0 = js ''9f86d081884c7d65''"

definition tampered :: jsvalue where
  "tampered = JObject [(js ''agentId'', JString (js ''sec'')),
                       (js ''issues'', JArray [JString (js ''tampered'')])]"

definition tamper :: "jsvalue \<Rightarrow> jsvalue" where
  "tamper v = tampered"

definition after_put :: "error option \<times> ResultCache \<times> store" where
  "after_put = cache_set 1000 1000 key0 0 (new_ResultCache, store0)"

definition key_of :: "nat \<Rightarrow> jsstring" where
  "key_of i = replicate (Suc i) 97"

fun puts :: "int \<Rightarrow> jsstring list \<Rightarrow> ref \<Rightarrow> ResultCache \<times> store \<Rightarrow> ResultCache \<times> store" where
  "puts now [] r s = s"
| "puts now (k # ks) r s = puts now ks r (snd (cache_set now now k r s))"


section \<open>Settled texts\<close>








section \<open>Evaluation\<close>

text \<open>The defining equations that the simplifier unfolds to evaluate a concrete input.\<close>

lemmas ev = js_def is_space_def is_digit_def is_upper_def is_lower_def is_word_def
  is_line_terminator_def lower_ascii_def str_includes_def endsWith_def trim_def
  normalizeString_def path_resolve_def segments_def path_relative_def
  pat_dotdot_def pat_tilde_def pat_unix_absolute_def pat_windows_absolute_def pat_nul_def
  pat_symbols_def pat_dots_def is_slash_def pat_slashes_def executable_extensions_def
  pat_executable_def pat_reserved_def pat_control_def dangerousPatterns_def validatePath_def
  escape_char_def escapeHtml_def lit_run_def m_home_def m_c_users_def m_users_def
  m_backslash_users_def prefix_ci_def is_quote_def is_word_or_hyphen_def cred_tail_def
  m_api_key_def m_keyword_def m_bearer_def sensitivePatterns_def redaction_def
  sanitizeText_def sanitizeError_def sensitiveKeys_def sanitizeEnv_def ALLOWED_COMMANDS_def
  COMMAND_TIMEOUT_def MAX_BUFFER_def AGENT_TIMEOUT_def sanitizeArg_def executeCommand_def
  Let_def

section \<open>Properties of SecurityUtils\<close>

text \<open>
  C8. A command that is not in the static allow-list \<^verbatim>\<open>Config.ALLOWED_COMMANDS\<close> makes
  \<^verbatim>\<open>executeCommand\<close> fail with the rejection error, and the process-spawn primitive
  \<^verbatim>\<open>execFile\<close> is not invoked: the log of spawns is returned as it was.
\<close>

theorem executeCommand_rejects_unlisted:
  assumes "cmd \<notin> set ALLOWED_COMMANDS"
  shows "executeCommand pf cmd cmdArgs opts log = (Inl (Error (msg_not_allowed @ cmd)), log)"
  using assms by (simp add: executeCommand_def Let_def)

theorem executeCommand_rejects_unlisted_witness:
  "js ''rm'' \<notin> set ALLOWED_COMMANDS
   \<and> executeCommand demo_platform (js ''rm'') [js ''-rf'', js ''x''] no_options []
       = (Inl (Error (msg_not_allowed @ js ''rm'')), [])"
proof -
  have h: "js ''rm'' \<notin> set ALLOWED_COMMANDS"
    by code_simp
  from executeCommand_rejects_unlisted [OF h] h show ?thesis
    by simp
qed

section \<open>Properties of AgentSandbox and ParallelExecutor\<close>

lemma tier_names_distinct:
  "js ''critical'' \<noteq> js ''high''" "js ''critical'' \<noteq> js ''medium''" "js ''critical'' \<noteq> js ''low''"
  "js ''high'' \<noteq> js ''medium''" "js ''high'' \<noteq> js ''low''" "js ''medium'' \<noteq> js ''low''"
  by (simp_all add: js_def)

lemma group_loop_tiers:
  "list_all (\<lambda>a. \<not> inherited_priority a) as \<Longrightarrow>
   group_loop as g =
     Inr \<lparr>critical = critical g @ tier (js ''critical'') as,
          high = high g @ tier (js ''high'') as,
          medium = medium g @ tier (js ''medium'') as,
          low = low g @ tier (js ''low'') as\<rparr>"
proof (induction as arbitrary: g)
  case Nil
  then show ?case by (simp add: tier_def)
next
  case (Cons a as)
  from Cons.prems have rest: "list_all (\<lambda>a. \<not> inherited_priority a) as"
    and a: "property_key (agent_priority a) \<notin> set object_prototype_keys"
    by (simp_all add: inherited_priority_def)
  note d = tier_names_distinct tier_names_distinct [symmetric]
  show ?case
    using a by (simp add: Cons.IH [OF rest] Let_def tier_def tier_of_def d)
qed

lemma groupByPriority_tiers:
  assumes "list_all (\<lambda>a. \<not> inherited_priority a) agents"
  shows "groupByPriority agents = Inr (filter (\<lambda>g. g \<noteq> []) (map (\<lambda>t. tier t agents) tier_names))"
  by (simp add: groupByPriority_def group_loop_tiers [OF assms] tier_names_def)


lemma sandbox_runs_append: "sandbox_runs (xs @ ys) = sandbox_runs xs @ sandbox_runs ys"
  by (induction xs rule: sandbox_runs.induct) simp_all

lemma executeCommand_runs:
  "sandbox_runs (snd (executeCommand pf cmd cmdArgs opts log)) = sandbox_runs log"
  by (simp add: executeCommand_def Let_def sandbox_runs_append
      split: sum.splits exec_outcome.splits)

lemma try_commands_runs:
  "sandbox_runs (snd (try_commands pf cmds log)) = sandbox_runs log"
proof (induction cmds arbitrary: log)
  case Nil
  show ?case by simp
next
  case (Cons c cmds)
  obtain r log1 where e: "executeCommand pf c [js ''--version'']
      \<lparr>opt_timeout = Some 1000, opt_maxBuffer = None, opt_cwd = None\<rparr> log = (r, log1)"
    by (cases "executeCommand pf c [js ''--version'']
      \<lparr>opt_timeout = Some 1000, opt_maxBuffer = None, opt_cwd = None\<rparr> log") auto
  have l1: "sandbox_runs log1 = sandbox_runs log"
    using executeCommand_runs [of pf c "[js ''--version'']"
        "\<lparr>opt_timeout = Some 1000, opt_maxBuffer = None, opt_cwd = None\<rparr>" log] e
    by simp
  show ?case
    by (cases r) (simp_all add: e l1 Cons.IH)
qed

lemma runAgentInSandbox_runs:
  "sandbox_runs (snd (runAgentInSandbox pf a target files it log)) = sandbox_runs log"
proof -
  obtain c log1 where g: "getClaudeCommand pf log = (c, log1)"
    by (cases "getClaudeCommand pf log") auto
  have l1: "sandbox_runs log1 = sandbox_runs log"
    using try_commands_runs [of pf "[js ''claude-code'', js ''claude'']" log] g
    by (simp add: getClaudeCommand_def)
  show ?thesis
  proof (cases c)
    case (Inl e)
    then show ?thesis by (simp add: runAgentInSandbox_def g l1)
  next
    case (Inr claudeCmd)
    obtain r log2 where e: "executeCommand pf claudeCmd (commandArgs a target files it)
        \<lparr>opt_timeout = Some AGENT_TIMEOUT, opt_maxBuffer = None, opt_cwd = None\<rparr> log1 = (r, log2)"
      by (cases "executeCommand pf claudeCmd (commandArgs a target files it)
        \<lparr>opt_timeout = Some AGENT_TIMEOUT, opt_maxBuffer = None, opt_cwd = None\<rparr> log1") auto
    have l2: "sandbox_runs log2 = sandbox_runs log1"
      using executeCommand_runs [of pf claudeCmd "commandArgs a target files it"
          "\<lparr>opt_timeout = Some AGENT_TIMEOUT, opt_maxBuffer = None, opt_cwd = None\<rparr>" log1] e
      by simp
    show ?thesis
      by (cases r) (simp_all add: runAgentInSandbox_def g Inr e l1 l2)
  qed
qed

lemma execute_try_runs:
  "sandbox_runs (snd (execute_try pf a target files it sid log)) = sandbox_runs log"
proof -
  obtain run log1 where r: "runAgentInSandbox pf a target files it log = (run, log1)"
    by (cases "runAgentInSandbox pf a target files it log") auto
  have "sandbox_runs log1 = sandbox_runs log"
    using runAgentInSandbox_runs [of pf a target files it log] r by simp
  then show ?thesis
    by (simp add: execute_try_def r split: sum.splits prod.splits)
qed

lemma execute_try_success:
  assumes "execute_try pf a target files it sid log = (Inr r, log')"
  shows "error r = None \<and> agentId r = escapeHtml (agent_id a)
         \<and> agentName r = escapeHtml (agent_name a)"
  using assms
  by (auto simp: execute_try_def sanitizeResult_def split: prod.splits sum.splits if_splits)

lemma replace_all_not_empty:
  assumes "rep \<noteq> []" and "xs \<noteq> []"
  shows "replace_all m rep xs \<noteq> []"
proof -
  from assms(2) obtain y ys where "xs = y # ys"
    by (cases xs) auto
  with assms(1) show ?thesis
    by (simp split: option.splits)
qed

lemma redaction_not_empty: "redaction i \<noteq> []"
  by (simp add: redaction_def js_def)

lemma redact_not_empty: "msg \<noteq> [] \<Longrightarrow> redact i ps msg \<noteq> []"
  by (induction ps arbitrary: i msg) (simp_all add: replace_all_not_empty redaction_not_empty)

lemma sanitizeText_not_empty: "msg \<noteq> [] \<Longrightarrow> sanitizeText msg \<noteq> []"
  unfolding sanitizeText_def Let_def
  by (intro redact_not_empty replace_all_not_empty) (simp_all add: js_def)

lemma error_to_string_not_empty: "error_to_string e \<noteq> []"
  by (cases e) (simp_all add: js_def)

lemma sanitizeError_not_empty: "sanitizeError e \<noteq> []"
  unfolding sanitizeError_def
  by (rule sanitizeText_not_empty) (simp add: error_to_string_not_empty)

lemma execute_result:
  "result_for a (fst (execute pf a target files it log))"
proof -
  let ?log = "log @ [SandboxRun (agent_id a) it]"
  obtain o1 log1 where t: "execute_try pf a target files it (randomBytes pf ?log) ?log = (o1, log1)"
    by (cases "execute_try pf a target files it (randomBytes pf ?log) ?log") auto
  show ?thesis
  proof (cases o1)
    case (Inl e)
    then show ?thesis
      by (simp add: execute_def Let_def t result_for_def sanitizeError_not_empty)
  next
    case (Inr r)
    with t execute_try_success [of pf a target files it "randomBytes pf ?log" ?log r log1]
    show ?thesis
      by (simp add: execute_def Let_def result_for_def)
  qed
qed

lemma execute_runs:
  "sandbox_runs (snd (execute pf a target files it log)) = sandbox_runs log @ [(agent_id a, it)]"
proof -
  let ?log = "log @ [SandboxRun (agent_id a) it]"
  obtain o1 log1 where t: "execute_try pf a target files it (randomBytes pf ?log) ?log = (o1, log1)"
    by (cases "execute_try pf a target files it (randomBytes pf ?log) ?log") auto
  have "sandbox_runs log1 = sandbox_runs ?log"
    using execute_try_runs [of pf a target files it "randomBytes pf ?log" ?log] t by simp
  then show ?thesis
    by (cases o1) (simp_all add: execute_def Let_def t sandbox_runs_append)
qed

lemma run_group_results:
  "list_all2 result_for as (fst (run_group pf as target files it log))
   \<and> sandbox_runs (snd (run_group pf as target files it log))
       = sandbox_runs log @ map (\<lambda>a. (agent_id a, it)) as"
proof (induction as arbitrary: log)
  case Nil
  show ?case by simp
next
  case (Cons a as)
  obtain r log1 where e: "execute pf a target files it log = (r, log1)"
    by (cases "execute pf a target files it log") auto
  obtain rs log2 where g: "run_group pf as target files it log1 = (rs, log2)"
    by (cases "run_group pf as target files it log1") auto
  have r: "result_for a r"
    using execute_result [of a pf target files it log] e by simp
  have l1: "sandbox_runs log1 = sandbox_runs log @ [(agent_id a, it)]"
    using execute_runs [of pf a target files it log] e by simp
  from Cons.IH [of log1] g have "list_all2 result_for as rs"
    and "sandbox_runs log2 = sandbox_runs log1 @ map (\<lambda>a. (agent_id a, it)) as"
    by simp_all
  with r l1 show ?case
    by (simp add: e g)
qed

lemma run_groups_results:
  "list_all2 result_for (concat (map (take m) gs)) (fst (run_groups pf m gs target files it log))
   \<and> sandbox_runs (snd (run_groups pf m gs target files it log))
       = sandbox_runs log @ map (\<lambda>a. (agent_id a, it)) (concat (map (take m) gs))"
proof (induction gs arbitrary: log)
  case Nil
  show ?case by simp
next
  case (Cons g gs)
  obtain rs log1 where e: "run_group pf (take m g) target files it log = (rs, log1)"
    by (cases "run_group pf (take m g) target files it log") auto
  obtain rest log2 where r: "run_groups pf m gs target files it log1 = (rest, log2)"
    by (cases "run_groups pf m gs target files it log1") auto
  from run_group_results [of "take m g" pf target files it log] e
  have a: "list_all2 result_for (take m g) rs"
    and b: "sandbox_runs log1 = sandbox_runs log @ map (\<lambda>a. (agent_id a, it)) (take m g)"
    by simp_all
  from Cons.IH [of log1] r
  have c: "list_all2 result_for (concat (map (take m) gs)) rest"
    and d: "sandbox_runs log2
              = sandbox_runs log1 @ map (\<lambda>a. (agent_id a, it)) (concat (map (take m) gs))"
    by simp_all
  from a c have "list_all2 result_for (take m g @ concat (map (take m) gs)) (rs @ rest)"
    by (rule list_all2_appendI)
  with b d show ?case
    by (simp add: e r Let_def)
qed

lemma concat_take_nonempty:
  "concat (map (take m) (filter (\<lambda>g. g \<noteq> []) gs)) = concat (map (take m) gs)"
  by (induction gs) simp_all

lemma executeAgents_results:
  assumes "list_all (\<lambda>a. \<not> inherited_priority a) agents"
  shows "\<exists>rs log'. executeAgents pf agents files target it log = (Inr rs, log')
           \<and> list_all2 result_for (selected agents) rs
           \<and> sandbox_runs log' = sandbox_runs log @ map (\<lambda>a. (agent_id a, it)) (selected agents)"
proof (cases "agents = []")
  case True
  then show ?thesis
    by (simp add: executeAgents_def selected_def tier_def)
next
  case False
  let ?m = "min (length agents) 4"
  let ?gs = "filter (\<lambda>g. g \<noteq> []) (map (\<lambda>t. tier t agents) tier_names)"
  have sel: "concat (map (take ?m) ?gs) = selected agents"
    by (simp add: concat_take_nonempty selected_def map_map comp_def)
  obtain rs log1 where r: "run_groups pf ?m ?gs target files it log = (rs, log1)"
    by (cases "run_groups pf ?m ?gs target files it log") auto
  from run_groups_results [of ?m ?gs pf target files it log] r sel
  have "list_all2 result_for (selected agents) rs"
    and "sandbox_runs log1 = sandbox_runs log @ map (\<lambda>a. (agent_id a, it)) (selected agents)"
    by simp_all
  then show ?thesis
    using False by (simp add: executeAgents_def Let_def groupByPriority_tiers [OF assms] r)
qed

lemmas ex_defs = mixed_def catalog_def five_medium_def five_urgent_def sec_def doc_def
  worker_def inherited_priority_def property_key_def object_prototype_keys_def js_def
  selected_def tier_def tier_of_def tier_names_def

text \<open>
  \<^verbatim>\<open>process.cwd()\<close> is an absolute path, and \<^verbatim>\<open>executeCommand\<close> validates its working
  directory, by default \<^verbatim>\<open>process.cwd()\<close>, with \<^verbatim>\<open>validatePath\<close>, which refuses every
  path that starts with a slash. On POSIX a call without the \<^verbatim>\<open>cwd\<close> option therefore
  raises before the process-spawn primitive is reached.
\<close>

lemma validatePath_absolute:
  "validatePath c (47 # rest) b = Inl (Error (msg_dangerous @ 47 # rest))"
  by (simp add: validatePath_def dangerousPatterns_def pat_unix_absolute_def)

lemma executeCommand_absolute_cwd:
  assumes "cwd pf = 47 # rest" and "opt_cwd opts = None"
  shows "\<exists>e. executeCommand pf cmd cmdArgs opts log = (Inl e, log)"
  using assms by (simp add: executeCommand_def Let_def validatePath_absolute)

lemma try_commands_absolute_cwd:
  assumes "cwd pf = 47 # rest"
  shows "try_commands pf cmds log = (Inl (Error msg_claude_missing), log)"
proof (induction cmds)
  case Nil
  show ?case by simp
next
  case (Cons c cmds)
  from executeCommand_absolute_cwd [OF assms, of
      "\<lparr>opt_timeout = Some 1000, opt_maxBuffer = None, opt_cwd = None\<rparr>" c "[js ''--version'']" log]
  obtain e where "executeCommand pf c [js ''--version'']
      \<lparr>opt_timeout = Some 1000, opt_maxBuffer = None, opt_cwd = None\<rparr> log = (Inl e, log)"
    by auto
  then show ?case
    by (simp add: Cons.IH)
qed

lemma execute_try_absolute_cwd:
  assumes "cwd pf = 47 # rest"
  shows "execute_try pf a target files it sid log
           = (Inl (Error (if timerWins pf log then msg_timeout else msg_claude_missing)), log)"
proof -
  have "getClaudeCommand pf log = (Inl (Error msg_claude_missing), log)"
    by (simp only: getClaudeCommand_def try_commands_absolute_cwd [OF assms])
  then show ?thesis
    by (simp add: execute_try_def runAgentInSandbox_def)
qed

text \<open>
  C7. \<^verbatim>\<open>AgentSandbox.execute\<close> never throws: for every platform, worker, file set and
  iteration it returns an ExecutionResult. Whenever the \<^verbatim>\<open>try\<close> block raises (the
  command is rejected or fails, the working directory is refused, the launcher is not
  found, the timer wins), the result has the \<^verbatim>\<open>error\<close> field populated with the
  sanitized message, which is not empty, and an empty list of issues; otherwise the
  result is the one the block built, without an error.
\<close>

theorem execute_never_throws:
  "\<exists>r log'. execute pf a target files it log = (r, log')
     \<and> (case fst (execute_try pf a target files it
                    (randomBytes pf (log @ [SandboxRun (agent_id a) it]))
                    (log @ [SandboxRun (agent_id a) it])) of
          Inl e \<Rightarrow> error r = Some (sanitizeError e) \<and> sanitizeError e \<noteq> [] \<and> issues r = []
        | Inr done \<Rightarrow> r = done \<and> error r = None)"
proof -
  let ?log = "log @ [SandboxRun (agent_id a) it]"
  obtain o1 log1 where t: "execute_try pf a target files it (randomBytes pf ?log) ?log = (o1, log1)"
    by (cases "execute_try pf a target files it (randomBytes pf ?log) ?log") auto
  show ?thesis
  proof (cases o1)
    case (Inl e)
    then show ?thesis
      by (simp add: execute_def Let_def t sanitizeError_not_empty)
  next
    case (Inr r)
    with t execute_try_success [of pf a target files it "randomBytes pf ?log" ?log r log1]
    show ?thesis
      by (simp add: execute_def Let_def)
  qed
qed

theorem execute_never_throws_witness:
  "error (fst (execute demo_platform sec (js ''.'') [js ''a.js''] 1 [])) = Some msg_claude_missing
   \<and> issues (fst (execute demo_platform sec (js ''.'') [js ''a.js''] 1 [])) = []"
proof -
  have c: "cwd demo_platform = 47 # js ''srv/app''"
    by (simp add: demo_platform_def js_def)
  have w: "\<not> timerWins demo_platform log" for log
    by (simp add: demo_platform_def)
  have t: "fst (execute_try demo_platform sec (js ''.'') [js ''a.js''] 1
             (randomBytes demo_platform ([] @ [SandboxRun (agent_id sec) 1]))
             ([] @ [SandboxRun (agent_id sec) 1])) = Inl (Error msg_claude_missing)"
    by (simp add: execute_try_absolute_cwd [OF c] w)
  have s: "sanitizeError (Error msg_claude_missing) = msg_claude_missing"
    by (simp add: ev msg_claude_missing_def)
  from execute_never_throws [of demo_platform sec "js ''.''" "[js ''a.js'']" 1 "[]"] t s
  show ?thesis
    by auto
qed

text \<open>
  C1, as the code has it. \<^verbatim>\<open>executeAgents\<close> keeps of each tier only its first
  \<open>min n 4\<close> workers, \<open>n\<close> being the number of workers of the call
  (\<^verbatim>\<open>group.slice(0, maxConcurrency)\<close>): five workers of one tier give four results.
\<close>

theorem executeAgents_drops_fifth_worker:
  "length five_medium = 5
   \<and> map_sum id length (fst (executeAgents demo_platform five_medium [] (js ''.'') 1 [])) = Inr 4"
proof -
  have h: "list_all (\<lambda>a. \<not> inherited_priority a) five_medium"
    by (simp add: five_medium_def worker_def inherited_priority_def property_key_def
        object_prototype_keys_def js_def)
  have s: "length (selected five_medium) = 4"
    by (simp add: selected_def tier_def tier_of_def tier_names_def five_medium_def worker_def
        property_key_def js_def)
  from executeAgents_results [OF h, of demo_platform "[]" "js ''.''" 1 "[]"]
  obtain rs log' where "executeAgents demo_platform five_medium [] (js ''.'') 1 [] = (Inr rs, log')"
    and "list_all2 result_for (selected five_medium) rs"
    by blast
  with s show ?thesis
    by (simp add: list_all2_lengthD [symmetric]) (simp add: five_medium_def)
qed

text \<open>
  C1, amended. For every list of workers none of which has an inherited priority,
  every file set, iteration and platform, \<^verbatim>\<open>executeAgents\<close> returns a list with exactly
  one ExecutionResult for each selected worker (of each tier the first \<open>min n 4\<close>), in
  the order of the tiers (critical, high, medium, low) and within a tier in the order of
  the input. Each result is a success or has its error populated and no issues: no
  failure of a run removes an entry.
\<close>

theorem executeAgents_one_result_per_selected_worker:
  assumes "list_all (\<lambda>a. \<not> inherited_priority a) agents"
  shows "\<exists>rs log'. executeAgents pf agents files target it log = (Inr rs, log')
           \<and> list_all2 result_for (selected agents) rs"
  using executeAgents_results [OF assms, of pf files target it log] by blast

theorem executeAgents_one_result_per_selected_worker_witness:
  "list_all (\<lambda>a. \<not> inherited_priority a) mixed
   \<and> selected mixed = [sec, worker ''lint'' (Some ''urgent''), worker ''style'' None]
   \<and> (\<exists>rs log'. executeAgents demo_platform mixed [js ''a.js''] (js ''.'') 1 [] = (Inr rs, log')
          \<and> list_all2 result_for (selected mixed) rs)"
proof -
  have h: "list_all (\<lambda>a. \<not> inherited_priority a) mixed"
    by (simp add: ex_defs)
  have s: "selected mixed = [sec, worker ''lint'' (Some ''urgent''), worker ''style'' None]"
    by (simp add: ex_defs)
  from executeAgents_one_result_per_selected_worker [OF h] h s show ?thesis
    by blast
qed











text \<open>
  C10, as the code has it. A priority that names an inherited property of the
  \<^verbatim>\<open>groups\<close> object (here \<^verbatim>\<open>constructor\<close>) makes \<^verbatim>\<open>groupByPriority\<close> raise, and the call
  of \<^verbatim>\<open>executeAgents\<close> is rejected; and of five workers with the unknown priority
  \<^verbatim>\<open>urgent\<close> the fifth is dropped.
\<close>

theorem unrecognised_priority_rejected_or_dropped:
  "fst (executeAgents demo_platform [worker ''odd'' (Some ''constructor'')] [] (js ''.'') 1 [])
     = Inl (TypeError msg_push)
   \<and> length five_urgent = 5
   \<and> map_sum id length (fst (executeAgents demo_platform five_urgent [] (js ''.'') 1 [])) = Inr 4"
proof -
  have g: "groupByPriority [worker ''odd'' (Some ''constructor'')] = Inl (TypeError msg_push)"
    by (simp add: groupByPriority_def worker_def property_key_def object_prototype_keys_def js_def)
  have h: "list_all (\<lambda>a. \<not> inherited_priority a) five_urgent"
    by (simp add: ex_defs)
  have s: "length (selected five_urgent) = 4"
    by (simp add: ex_defs)
  from executeAgents_results [OF h, of demo_platform "[]" "js ''.''" 1 "[]"]
  obtain rs log' where "executeAgents demo_platform five_urgent [] (js ''.'') 1 [] = (Inr rs, log')"
    and "list_all2 result_for (selected five_urgent) rs"
    by blast
  with s have "map_sum id length (fst (executeAgents demo_platform five_urgent [] (js ''.'') 1 [])) = Inr 4"
    by (simp add: list_all2_lengthD [symmetric])
  moreover have "length five_urgent = 5"
    by (simp add: five_urgent_def)
  ultimately show ?thesis
    by (simp add: executeAgents_def g)
qed

text \<open>
  C10, amended. In a list of workers none of which has an inherited priority, a worker
  whose priority is none of the four tiers (a missing one included) is placed by
  \<^verbatim>\<open>groupByPriority\<close> into the medium group, and into no other; when it is among the
  first \<open>min n 4\<close> workers of that group, \<^verbatim>\<open>executeAgents\<close> returns a result for it.
\<close>

theorem unrecognised_priority_is_medium:
  assumes "list_all (\<lambda>a. \<not> inherited_priority a) agents"
    and "a \<in> set agents"
    and "property_key (agent_priority a) \<notin> set tier_names"
  shows "\<exists>gs. groupByPriority agents = Inr gs
           \<and> tier (js ''medium'') agents \<in> set gs
           \<and> a \<in> set (tier (js ''medium'') agents)
           \<and> list_all (\<lambda>g. a \<in> set g \<longrightarrow> g = tier (js ''medium'') agents) gs
           \<and> (a \<in> set (take (min (length agents) 4) (tier (js ''medium'') agents)) \<longrightarrow>
                (\<exists>rs log'. executeAgents pf agents files target it log = (Inr rs, log')
                   \<and> list_ex (result_for a) rs))"
proof -
  let ?gs = "filter (\<lambda>g. g \<noteq> []) (map (\<lambda>t. tier t agents) tier_names)"
  have g: "groupByPriority agents = Inr ?gs"
    by (rule groupByPriority_tiers [OF assms(1)])
  from assms(3) have m: "tier_of a = js ''medium''"
    by (simp add: tier_of_def tier_names_def Let_def)
  with assms(2) have in_m: "a \<in> set (tier (js ''medium'') agents)"
    by (simp add: tier_def)
  then have "tier (js ''medium'') agents \<in> set ?gs"
    by (auto simp: tier_names_def)
  moreover have "list_all (\<lambda>g. a \<in> set g \<longrightarrow> g = tier (js ''medium'') agents) ?gs"
    using m by (auto simp: list_all_iff tier_def)
  moreover have "\<exists>rs log'. executeAgents pf agents files target it log = (Inr rs, log')
      \<and> list_ex (result_for a) rs"
    if sel: "a \<in> set (take (min (length agents) 4) (tier (js ''medium'') agents))"
  proof -
    from sel have "a \<in> set (selected agents)"
      by (auto simp: selected_def tier_names_def)
    moreover from executeAgents_results [OF assms(1), of pf files target it log]
    obtain rs log' where e: "executeAgents pf agents files target it log = (Inr rs, log')"
      and l: "list_all2 result_for (selected agents) rs"
      by blast
    ultimately obtain i where i: "i < length (selected agents)" and a: "selected agents ! i = a"
      by (auto simp: in_set_conv_nth)
    from l i have "result_for (selected agents ! i) (rs ! i)"
      by (rule list_all2_nthD)
    moreover from l i have "rs ! i \<in> set rs"
      by (simp add: list_all2_lengthD)
    ultimately have "list_ex (result_for a) rs"
      using a by (auto simp: list_ex_iff)
    with e show ?thesis
      by simp
  qed
  ultimately show ?thesis
    using g in_m by blast
qed

theorem unrecognised_priority_is_medium_witness:
  "list_all (\<lambda>a. \<not> inherited_priority a) mixed
   \<and> worker ''lint'' (Some ''urgent'') \<in> set mixed
   \<and> property_key (agent_priority (worker ''lint'' (Some ''urgent''))) \<notin> set tier_names
   \<and> groupByPriority mixed = Inr [[sec], [worker ''lint'' (Some ''urgent''), worker ''style'' None]]
   \<and> tier (js ''medium'') mixed = [worker ''lint'' (Some ''urgent''), worker ''style'' None]
   \<and> (\<exists>rs log'. executeAgents demo_platform mixed [js ''a.js''] (js ''.'') 1 [] = (Inr rs, log')
         \<and> list_ex (result_for (worker ''lint'' (Some ''urgent''))) rs)"
proof -
  have h: "list_all (\<lambda>a. \<not> inherited_priority a) mixed"
    by (simp add: ex_defs)
  have i: "worker ''lint'' (Some ''urgent'') \<in> set mixed"
    by (simp add: mixed_def)
  have k: "property_key (agent_priority (worker ''lint'' (Some ''urgent''))) \<notin> set tier_names"
    by (simp add: ex_defs)
  have t: "tier (js ''medium'') mixed = [worker ''lint'' (Some ''urgent''), worker ''style'' None]"
    by (simp add: ex_defs)
  have g: "groupByPriority mixed = Inr [[sec], [worker ''lint'' (Some ''urgent''), worker ''style'' None]]"
    by (simp add: groupByPriority_tiers [OF h]) (simp add: ex_defs)
  have m: "min (length mixed) 4 = 3"
    by (simp add: mixed_def)
  from unrecognised_priority_is_medium [OF h i k, of demo_platform "[js ''a.js'']" "js ''.''" 1 "[]"]
  show ?thesis
    using h i k g by (auto simp: t m)
qed

section \<open>Properties of ResultCache\<close>

lemma oldest_no_older:
  "list_all (\<lambda>(k, e). t \<le> timestamp e) es \<Longrightarrow> oldest es key t = key"
  by (induction es) auto

lemma evictOldest_no_older:
  "list_all (\<lambda>(k, e). now \<le> timestamp e) (cache c) \<Longrightarrow> evictOldest now c = c"
  by (simp add: evictOldest_def oldest_no_older)

lemma map_set_fresh: "k \<notin> fst ` set es \<Longrightarrow> map_set k v es = es @ [(k, v)]"
  by (induction es) auto

lemma cache_set_same_time:
  assumes "list_all (\<lambda>(k, e). now \<le> timestamp e) (cache c)"
    and "key \<notin> fst ` set (cache c)"
    and "cells h r = Some v" and "v \<noteq> JUndefined" and "r < next_ref h"
  shows "\<exists>h'. snd (cache_set now now key r (c, h))
            = (c\<lparr>cache := cache c @ [(key, \<lparr>result = next_ref h, timestamp = now\<rparr>)]\<rparr>, h')
          \<and> cells h' r = Some v \<and> r < next_ref h'"
  using assms
  by (simp add: cache_set_def Let_def evictOldest_no_older deep_copy_def alloc_def map_set_fresh)

lemma puts_same_time:
  assumes "list_all (\<lambda>(k, e). now \<le> timestamp e) (cache c)"
    and "distinct ks" and "set ks \<inter> fst ` set (cache c) = {}"
    and "cells h r = Some v" and "v \<noteq> JUndefined" and "r < next_ref h"
  shows "map fst (cache (fst (puts now ks r (c, h)))) = map fst (cache c) @ ks"
  using assms
proof (induction ks arbitrary: c h)
  case Nil
  then show ?case by simp
next
  case (Cons k ks)
  from Cons.prems have fresh: "k \<notin> fst ` set (cache c)"
    by auto
  from cache_set_same_time [OF Cons.prems(1) fresh Cons.prems(4,5,6)]
  obtain h' where s: "snd (cache_set now now k r (c, h))
        = (c\<lparr>cache := cache c @ [(k, \<lparr>result = next_ref h, timestamp = now\<rparr>)]\<rparr>, h')"
    and v: "cells h' r = Some v" and n: "r < next_ref h'"
    by blast
  let ?c = "c\<lparr>cache := cache c @ [(k, \<lparr>result = next_ref h, timestamp = now\<rparr>)]\<rparr>"
  have a: "list_all (\<lambda>(k, e). now \<le> timestamp e) (cache ?c)"
    using Cons.prems(1) by simp
  have b: "distinct ks"
    using Cons.prems(2) by simp
  have d: "set ks \<inter> fst ` set (cache ?c) = {}"
    using Cons.prems(2,3) by auto
  from Cons.IH [OF a b d v Cons.prems(5) n] show ?case
    by (simp add: s)
qed

lemma key_of_inj: "inj key_of"
proof (rule injI)
  fix i j
  assume "key_of i = key_of j"
  then have "length (key_of i) = length (key_of j)"
    by simp
  then show "i = j"
    by (simp add: key_of_def)
qed

text \<open>
  C6. The capacity is not kept. \<^verbatim>\<open>evictOldest\<close> starts its search from
  \<^verbatim>\<open>oldestTime = Date.now()\<close> and takes an entry only when its time stamp is smaller, so
  entries stamped with the current clock value are never evicted: 101 \<^verbatim>\<open>set\<close> calls on
  distinct keys within one millisecond leave 101 entries in a cache of capacity 100.
\<close>

theorem capacity_exceeded_within_one_millisecond:
  "maxSize new_ResultCache = 100
   \<and> length (cache (fst (puts 1000 (map key_of [0..<101]) 0 (new_ResultCache, store0)))) = 101"
proof -
  have "map fst (cache (fst (puts 1000 (map key_of [0..<101]) 0 (new_ResultCache, store0))))
          = map fst (cache new_ResultCache) @ map key_of [0..<101]"
    by (rule puts_same_time [where v = "JObject [(js ''agentId'', JString (js ''sec'')), (js ''issues'', JArray [])]"])
      (simp_all add: new_ResultCache_def store0_def distinct_map key_of_inj [THEN inj_on_subset])
  then have "length (map fst (cache (fst (puts 1000 (map key_of [0..<101]) 0 (new_ResultCache, store0)))))
          = length (map fst (cache new_ResultCache) @ map key_of [0..<101])"
    by (rule arg_cong)
  then show ?thesis
    by (simp add: new_ResultCache_def)
qed

lemmas cache_defs = after_put_def cache_set_def cache_get_def new_ResultCache_def store0_def
  key0_def tamper_def tampered_def mutate_def alloc_def deep_copy_def evictOldest_def map_delete_def Let_def

text \<open>
  C4. \<^verbatim>\<open>set\<close> stores a copy under a fresh reference, and \<^verbatim>\<open>get\<close> right after it returns
  that reference, whose object equals the one put and is not the same object. But
  \<^verbatim>\<open>get\<close> returns the stored reference itself: after an assignment through it, the next
  \<^verbatim>\<open>get\<close> returns the changed object, not the one that was put.
\<close>

theorem get_returns_stored_reference:
  "fst after_put = None
   \<and> fst (cache_get 1000 key0 (fst (snd after_put))) = Some 1
   \<and> cells (snd (snd after_put)) 1 = cells store0 0
   \<and> fst (cache_get 1001 key0 (snd (cache_get 1000 key0 (fst (snd after_put))))) = Some 1
   \<and> cells (mutate 1 tamper (snd (snd after_put))) 1 = Some tampered
   \<and> cells (mutate 1 tamper (snd (snd after_put))) 1 \<noteq> cells store0 0"
  by (simp add: cache_defs js_def)

section \<open>Properties of parseAgentOutput\<close>




















section \<open>Properties of validatePath\<close>

lemma js_slash: "js ''/'' = [47]" and js_dot: "js ''.'' = [46]" and js_dotdot: "js ''..'' = [46, 46]"
  by (simp_all add: js_def)

lemma str_includes_sublist: "str_includes xs p \<longleftrightarrow> sublist p xs"
  unfolding str_includes_def by (induction xs) (auto simp: sublist_Cons_right)

subsection \<open>Splitting and joining\<close>

lemma split_on_not_Nil: "split_on d xs \<noteq> []"
  by (induction xs) (auto split: list.splits)

lemma join_Cons: "ss \<noteq> [] \<Longrightarrow> join sep (s # ss) = s @ sep @ join sep ss"
  by (cases ss) simp_all

lemma join_append:
  "B \<noteq> [] \<Longrightarrow> C \<noteq> [] \<Longrightarrow> join sep (B @ C) = join sep B @ sep @ join sep C"
  by (induction sep B rule: join.induct) (simp_all add: join_Cons)

lemma join_split: "join [d] (split_on d xs) = xs"
proof (induction xs)
  case Nil
  show ?case by simp
next
  case (Cons c cs)
  obtain s ss where s: "split_on d cs = s # ss"
    using split_on_not_Nil [of d cs] by (cases "split_on d cs") auto
  with Cons show ?case
    by (cases ss) (auto simp: join_Cons)
qed

lemma split_on_append_delim: "split_on d (xs @ d # ys) = split_on d xs @ split_on d ys"
proof (induction xs)
  case Nil
  show ?case by simp
next
  case (Cons c cs)
  obtain s ss where s: "split_on d cs = s # ss"
    using split_on_not_Nil [of d cs] by (cases "split_on d cs") auto
  with Cons show ?case
    by simp
qed

lemma split_on_no_delim: "s \<in> set (split_on d xs) \<Longrightarrow> d \<notin> set s"
proof (induction xs arbitrary: s)
  case Nil
  then show ?case by simp
next
  case (Cons c cs)
  obtain t ts where t: "split_on d cs = t # ts"
    using split_on_not_Nil [of d cs] by (cases "split_on d cs") auto
  with Cons.IH have "d \<notin> set t" and "\<And>u. u \<in> set ts \<Longrightarrow> d \<notin> set u"
    by simp_all
  with Cons.prems t show ?case
    by (auto split: if_splits)
qed

lemma split_on_no_delim_id: "d \<notin> set s \<Longrightarrow> split_on d s = [s]"
  by (induction s) auto

lemma split_join:
  "B \<noteq> [] \<Longrightarrow> (\<And>s. s \<in> set B \<Longrightarrow> d \<notin> set s) \<Longrightarrow> split_on d (join [d] B) = B"
proof (induction "[d]" B rule: join.induct)
  case 1
  then show ?case by simp
next
  case (2 s)
  then show ?case by (simp add: split_on_no_delim_id)
next
  case (3 s t ss)
  then have "split_on d (join [d] (t # ss)) = t # ss" and "d \<notin> set s"
    by simp_all
  then show ?case
    by (simp add: split_on_append_delim split_on_no_delim_id)
qed

lemma sublist_join: "s \<in> set C \<Longrightarrow> sublist s (join sep C)"
proof (induction sep C rule: join.induct)
  case (1 sep)
  then show ?case by simp
next
  case (2 sep t)
  then show ?case by simp
next
  case (3 sep t u ss)
  show ?case
  proof (cases "s = t")
    case True
    then show ?thesis by simp
  next
    case False
    with 3 have "sublist s (join sep (u # ss))"
      by simp
    then show ?thesis
      by (auto simp: sublist_append)
  qed
qed

lemma dotdot_across:
  assumes "c \<noteq> 46"
  shows "sublist [46, 46] (xs @ c # ys) \<longleftrightarrow> sublist [46, 46] xs \<or> sublist [46, 46] ys"
proof
  assume "sublist [46, 46] (xs @ c # ys)"
  then consider "sublist [46, 46] xs" | "sublist [46, 46] (c # ys)"
    | p1 p2 where "[46, 46] = p1 @ p2" "suffix p1 xs" "prefix p2 (c # ys)"
    by (auto simp: sublist_append)
  then show "sublist [46, 46] xs \<or> sublist [46, 46] ys"
  proof cases
    case 1
    then show ?thesis by simp
  next
    case 2
    with assms show ?thesis
      by (auto simp: sublist_Cons_right)
  next
    case 3
    show ?thesis
    proof (cases p2)
      case Nil
      with 3 have "suffix [46, 46] xs"
        by simp
      then show ?thesis
        by (auto simp: suffix_def)
    next
      case (Cons q qs)
      with 3(3) have "q = c"
        by simp
      moreover from 3(1) Cons have "q = 46"
        by (cases p1; cases "tl p1") (auto simp: Cons_eq_append_conv)
      ultimately show ?thesis
        using assms by simp
    qed
  qed
next
  assume "sublist [46, 46] xs \<or> sublist [46, 46] ys"
  then show "sublist [46, 46] (xs @ c # ys)"
    by (auto simp: sublist_append sublist_Cons_right)
qed

lemma join_no_dotdot:
  "(\<And>s. s \<in> set C \<Longrightarrow> \<not> sublist [46, 46] s) \<Longrightarrow> \<not> sublist [46, 46] (join [47] C)"
proof (induction "[47::nat]" C rule: join.induct)
  case 1
  show ?case by simp
next
  case (2 s)
  then show ?case by simp
next
  case (3 s t ss)
  then have "\<not> sublist [46, 46] (join [47] (t # ss))" and "\<not> sublist [46, 46] s"
    by simp_all
  then show ?case
    using dotdot_across [of 47 s "join [47] (t # ss)"] by simp
qed

subsection \<open>Normalisation\<close>

lemma norm_segs_append:
  "norm_segs a acc (xs @ ys) = norm_segs a (rev (norm_segs a acc xs)) ys"
  by (induction xs arbitrary: acc) (auto split: list.splits)

lemma norm_segs_plain:
  "(\<And>s. s \<in> set ys \<Longrightarrow> s \<noteq> [46, 46]) \<Longrightarrow>
   norm_segs a acc ys = rev acc @ filter (\<lambda>s. s \<noteq> [] \<and> s \<noteq> [46]) ys"
  by (induction ys arbitrary: acc) (auto simp: js_dot js_dotdot)

lemma norm_segs_plain_result:
  assumes "\<And>s. s \<in> set acc \<Longrightarrow> plain s" and "\<And>s. s \<in> set xs \<Longrightarrow> 47 \<notin> set s"
  shows "s \<in> set (norm_segs False acc xs) \<Longrightarrow> plain s"
  using assms
proof (induction xs arbitrary: acc)
  case Nil
  then show ?case by simp
next
  case (Cons x xs)
  have tl: "\<And>s. s \<in> set xs \<Longrightarrow> 47 \<notin> set s"
    using Cons.prems(3) by simp
  have x: "47 \<notin> set x"
    using Cons.prems(3) by simp
  consider "x = [] \<or> x = [46]" | "x = [46, 46]" | "x \<noteq> []" "x \<noteq> [46]" "x \<noteq> [46, 46]"
    by blast
  then show ?case
  proof cases
    case 1
    with Cons.prems(1) have "s \<in> set (norm_segs False acc xs)"
      by (auto simp: js_dot js_dotdot)
    from Cons.IH [OF this Cons.prems(2) tl] show ?thesis .
  next
    case 2
    show ?thesis
    proof (cases acc)
      case Nil
      with 2 Cons.prems(1) have "s \<in> set (norm_segs False [] xs)"
        by (simp add: js_dot js_dotdot)
      from Cons.IH [OF this _ tl] show ?thesis
        by simp
    next
      case (Cons t acc')
      with Cons.prems(2) have "plain t"
        by simp
      then have "t \<noteq> [46, 46]"
        by (simp add: plain_def)
      with 2 Cons Cons.prems(1) have "s \<in> set (norm_segs False acc' xs)"
        by (simp add: js_dot js_dotdot)
      moreover have "\<And>u. u \<in> set acc' \<Longrightarrow> plain u"
        using Cons.prems(2) Cons by simp
      ultimately show ?thesis
        using Cons.IH tl by blast
    qed
  next
    case 3
    with Cons.prems(1) have "s \<in> set (norm_segs False (x # acc) xs)"
      by (simp add: js_dot js_dotdot)
    moreover have "\<And>u. u \<in> set (x # acc) \<Longrightarrow> plain u"
      using Cons.prems(2) 3 x by (auto simp: plain_def)
    ultimately show ?thesis
      using Cons.IH tl by blast
  qed
qed

subsection \<open>Resolution\<close>

lemma resolve_loop_acc:
  "resolve_loop ps acc = (fst (resolve_loop ps []) @ acc, snd (resolve_loop ps []))"
proof (induction ps arbitrary: acc)
  case Nil
  show ?case by simp
next
  case (Cons p ps)
  show ?case
  proof (cases p)
    case Nil
    with Cons.IH [of acc] show ?thesis
      by simp
  next
    case (Cons c cs)
    show ?thesis
    proof (cases "c = 47")
      case True
      with Cons show ?thesis
        by simp
    next
      case False
      have "resolve_loop ps (p @ js ''/'' @ acc)
              = (fst (resolve_loop ps []) @ p @ js ''/'' @ acc, snd (resolve_loop ps []))"
        by (rule Cons.IH)
      moreover have "resolve_loop ps (p @ js ''/'' @ [])
              = (fst (resolve_loop ps []) @ p @ js ''/'' @ [], snd (resolve_loop ps []))"
        by (rule Cons.IH)
      ultimately show ?thesis
        using False Cons by simp
    qed
  qed
qed

lemma resolve_loop_absolute:
  assumes "prefix [47] wd"
  shows "\<exists>S0. resolve_loop [base, wd] [] = (S0 @ [47], True)"
proof -
  from assms obtain rest where wd: "wd = 47 # rest"
    by (auto simp: prefix_def)
  show ?thesis
  proof (cases base)
    case Nil
    with wd show ?thesis
      by (simp add: js_slash)
  next
    case (Cons c cs)
    with wd show ?thesis
      by (cases "c = 47") (simp_all add: js_slash)
  qed
qed

lemma plain_filter: "(\<And>s. s \<in> set G \<Longrightarrow> plain s) \<Longrightarrow> filter (\<lambda>s. s \<noteq> [] \<and> s \<noteq> [46]) G = G"
  by (rule filter_True) (simp add: plain_def)

lemma plain_split_join:
  assumes "\<And>s. s \<in> set G \<Longrightarrow> plain s"
  shows "filter (\<lambda>s. s \<noteq> [] \<and> s \<noteq> [46]) (split_on 47 (join [47] G)) = G"
    and "\<And>s. s \<in> set (split_on 47 (join [47] G)) \<Longrightarrow> s \<noteq> [46, 46]"
    and "filter (\<lambda>s. s \<noteq> []) (split_on 47 (join [47] G)) = G"
proof -
  have s: "split_on 47 (join [47] G) = (if G = [] then [[]] else G)"
    using assms by (auto simp: split_join plain_def)
  show "filter (\<lambda>s. s \<noteq> [] \<and> s \<noteq> [46]) (split_on 47 (join [47] G)) = G"
    using assms by (simp add: s plain_filter)
  show "\<And>s. s \<in> set (split_on 47 (join [47] G)) \<Longrightarrow> s \<noteq> [46, 46]"
    using assms by (auto simp: s plain_def split: if_splits)
  show "filter (\<lambda>s. s \<noteq> []) (split_on 47 (join [47] G)) = G"
    using assms by (auto simp: s plain_def intro: filter_True)
qed

lemma path_resolve_plain:
  assumes "\<And>s. s \<in> set G \<Longrightarrow> plain s"
  shows "path_resolve wd [47 # join [47] G] = 47 # join [47] G"
proof -
  have "split_on 47 (47 # join [47] G @ [47]) = [] # split_on 47 (join [47] G) @ [[]]"
    using split_on_append_delim [of 47 "join [47] G" "[]"] by simp
  moreover have "norm_segs False [] ([] # split_on 47 (join [47] G) @ [[]]) = G"
    using plain_split_join(1,2) [OF assms]
    by (subst norm_segs_plain) auto
  ultimately show ?thesis
    by (simp add: path_resolve_def normalizeString_def js_slash)
qed

lemma segments_plain:
  assumes "\<And>s. s \<in> set G \<Longrightarrow> plain s"
  shows "segments (47 # join [47] G) = G"
  using plain_split_join(3) [OF assms] by (simp add: segments_def)

lemma longest_common_prefix_append: "longest_common_prefix B (B @ C) = B"
  by (induction B) simp_all

lemma path_relative_inside:
  assumes "\<And>s. s \<in> set B \<Longrightarrow> plain s" and "\<And>s. s \<in> set C \<Longrightarrow> plain s"
  shows "path_relative wd (47 # join [47] B) (47 # join [47] (B @ C)) = []
         \<or> path_relative wd (47 # join [47] B) (47 # join [47] (B @ C)) = join [47] C"
proof -
  have bc: "\<And>s. s \<in> set (B @ C) \<Longrightarrow> plain s"
    using assms by auto
  have f: "path_resolve wd [47 # join [47] B] = 47 # join [47] B"
    by (rule path_resolve_plain) (rule assms(1))
  have t: "path_resolve wd [47 # join [47] (B @ C)] = 47 # join [47] (B @ C)"
    by (rule path_resolve_plain) (rule bc)
  have sf: "segments (47 # join [47] B) = B"
    by (rule segments_plain) (rule assms(1))
  have st: "segments (47 # join [47] (B @ C)) = B @ C"
    by (rule segments_plain) (rule bc)
  show ?thesis
    unfolding path_relative_def Let_def f t sf st longest_common_prefix_append
    by (simp add: js_slash)
qed

lemma plain_no_dotdot_join:
  assumes "\<And>s. s \<in> set C \<Longrightarrow> \<not> sublist [46, 46] s"
  shows "\<not> str_includes (join [47] C) (js ''..'')" and "\<not> prefix (js ''../'') (join [47] C)"
proof -
  have n: "\<not> sublist [46, 46] (join [47] C)"
    by (rule join_no_dotdot) (rule assms)
  then show "\<not> str_includes (join [47] C) (js ''..'')"
    by (simp add: str_includes_sublist js_dotdot)
  have "js ''../'' = [46, 46] @ [47]"
    by (simp add: js_def)
  then show "\<not> prefix (js ''../'') (join [47] C)"
    using n by (auto simp: prefix_def sublist_def) (metis append_Nil n sublist_appendI)
qed

text \<open>The two resolutions of \<^verbatim>\<open>validatePath\<close> for a candidate without traversal.\<close>

lemma segment_no_dotdot:
  assumes "\<not> sublist [46, 46] p" and "s \<in> set (split_on 47 p)"
  shows "\<not> sublist [46, 46] s"
proof
  assume "sublist [46, 46] s"
  moreover from assms(2) have "sublist s (join [47] (split_on 47 p))"
    by (rule sublist_join)
  then have "sublist s p"
    by (simp add: join_split)
  ultimately have "sublist [46, 46] p"
    by (rule sublist_order.order_trans)
  with assms(1) show False ..
qed

lemma resolutions:
  assumes wd: "prefix [47] wd" and p: "p \<noteq> []" "\<not> prefix [47] p" "\<not> sublist [46, 46] p"
  shows "\<exists>B C. (\<forall>s\<in>set B. plain s) \<and> (\<forall>s\<in>set C. plain s \<and> \<not> sublist [46, 46] s)
           \<and> path_resolve wd [base] = 47 # join [47] B
           \<and> path_resolve wd [base, p] = 47 # join [47] (B @ C)"
proof -
  from resolve_loop_absolute [OF wd] obtain S0 where
    r: "resolve_loop [base, wd] [] = (S0 @ [47], True)"
    by blast
  define B where "B = norm_segs False [] (split_on 47 S0)"
  define C where "C = filter (\<lambda>s. s \<noteq> [] \<and> s \<noteq> [46]) (split_on 47 p)"
  have B: "\<And>s. s \<in> set B \<Longrightarrow> plain s"
    unfolding B_def by (rule norm_segs_plain_result [of "[]"]) (auto dest: split_on_no_delim)
  have nd: "\<And>s. s \<in> set (split_on 47 p) \<Longrightarrow> \<not> sublist [46, 46] s"
    using segment_no_dotdot [OF p(3)] by blast
  have C: "\<And>s. s \<in> set C \<Longrightarrow> plain s \<and> \<not> sublist [46, 46] s"
  proof -
    fix s
    assume "s \<in> set C"
    then have s: "s \<in> set (split_on 47 p)" "s \<noteq> []" "s \<noteq> [46]"
      by (simp_all add: C_def)
    from nd [OF s(1)] have "s \<noteq> [46, 46]"
      by auto
    with s nd [OF s(1)] split_on_no_delim [OF s(1)] show "plain s \<and> \<not> sublist [46, 46] s"
      by (simp add: plain_def)
  qed
  have s1: "split_on 47 (S0 @ [47]) = split_on 47 S0 @ [[]]"
    using split_on_append_delim [of 47 S0 "[]"] by simp
  have "norm_segs False [] (split_on 47 S0 @ [[]]) = B"
    by (simp add: norm_segs_append B_def)
  then have root: "path_resolve wd [base] = 47 # join [47] B"
    by (simp add: path_resolve_def r normalizeString_def s1 js_slash del: resolve_loop.simps)
  from p obtain c cs where pc: "p = c # cs" "c \<noteq> 47"
    by (cases p) auto
  have "resolve_loop [p, base, wd] [] = (S0 @ [47] @ p @ [47], True)"
    using resolve_loop_acc [of "[base, wd]" "p @ js ''/'' @ []"] r pc by (simp add: js_slash)
  moreover have "split_on 47 (S0 @ [47] @ p @ [47]) = split_on 47 S0 @ split_on 47 p @ [[]]"
    using split_on_append_delim [of 47 S0 "p @ [47]"] split_on_append_delim [of 47 p "[]"]
    by simp
  moreover have "norm_segs False [] (split_on 47 S0 @ split_on 47 p @ [[]]) = B @ C"
  proof -
    have "\<And>s. s \<in> set (split_on 47 p @ [[]]) \<Longrightarrow> s \<noteq> [46, 46]"
      using nd by auto
    then have "norm_segs False (rev B) (split_on 47 p @ [[]])
                 = rev (rev B) @ filter (\<lambda>s. s \<noteq> [] \<and> s \<noteq> [46]) (split_on 47 p @ [[]])"
      by (rule norm_segs_plain)
    then show ?thesis
      by (simp add: norm_segs_append [of False "[]" "split_on 47 S0"] B_def C_def)
  qed
  ultimately have "path_resolve wd [base, p] = 47 # join [47] (B @ C)"
    by (simp add: path_resolve_def normalizeString_def js_slash del: resolve_loop.simps)
  with root B C show ?thesis
    by blast
qed

lemma prefix_join: "prefix (join sep B) (join sep (B @ C))"
  by (cases "B = []"; cases "C = []") (simp_all add: join_append)

subsection \<open>The contract of validatePath\<close>

lemma validatePath_succeeds:
  assumes "p \<noteq> []" and "\<not> list_ex (\<lambda>pattern. pattern p) dangerousPatterns"
    and "prefix [47] wd" and "length (path_resolve wd [base, p]) \<le> 260"
  shows "validatePath wd p base = Inr (path_resolve wd [base, p])"
    and "prefix (path_resolve wd [base]) (path_resolve wd [base, p])"
proof -
  from assms(2) have "\<not> pat_dotdot p" and "\<not> pat_unix_absolute p"
    by (simp_all add: dangerousPatterns_def)
  with assms(1) have p: "\<not> prefix [47] p" "\<not> sublist [46, 46] p"
    by (auto simp: pat_dotdot_def pat_unix_absolute_def str_includes_sublist js_dotdot prefix_def
        split: list.splits)
  from resolutions [OF assms(3,1) p, of base] obtain B C where
    B: "\<And>s. s \<in> set B \<Longrightarrow> plain s" and C: "\<And>s. s \<in> set C \<Longrightarrow> plain s"
    and nd: "\<And>s. s \<in> set C \<Longrightarrow> \<not> sublist [46, 46] s"
    and root: "path_resolve wd [base] = 47 # join [47] B"
    and res: "path_resolve wd [base, p] = 47 # join [47] (B @ C)"
    by blast
  show pre: "prefix (path_resolve wd [base]) (path_resolve wd [base, p])"
    by (simp add: root res prefix_join)
  let ?rel = "path_relative wd (47 # join [47] B) (47 # join [47] (B @ C))"
  have "\<not> str_includes ?rel (js ''..'') \<and> \<not> prefix (js ''../'') ?rel"
  proof (cases "?rel = []")
    case True
    then show ?thesis
      by (simp add: str_includes_def js_def)
  next
    case False
    with path_relative_inside [where B = B and C = C and wd = wd] B C
    have "?rel = join [47] C"
      by blast
    then show ?thesis
      using plain_no_dotdot_join [of C, OF nd] by simp
  qed
  then have rel: "\<not> str_includes (path_relative wd (path_resolve wd [base]) (path_resolve wd [base, p]))
               (js ''..'')
           \<and> \<not> prefix (js ''../'')
               (path_relative wd (path_resolve wd [base]) (path_resolve wd [base, p]))"
    by (simp add: root res)
  from assms(1,2,4) pre rel show "validatePath wd p base = Inr (path_resolve wd [base, p])"
    by (simp add: validatePath_def Let_def)
qed

text \<open>
  C3, as the code has it. The deny list also refuses paths inside the root: \<^verbatim>\<open>app.js\<close>
  resolves to \<^verbatim>\<open>/srv/app/app.js\<close>, strictly within the root \<^verbatim>\<open>/srv/app\<close>, and is rejected
  for its extension.
\<close>

theorem validatePath_rejects_path_within_root:
  "path_resolve (js ''/srv/app'') [js ''/srv/app'', js ''app.js''] = js ''/srv/app/app.js''
   \<and> path_resolve (js ''/srv/app'') [js ''/srv/app''] = js ''/srv/app''
   \<and> validatePath (js ''/srv/app'') (js ''app.js'') (js ''/srv/app'')
       = Inl (Error (msg_dangerous @ js ''app.js''))"
proof -
  have "pat_executable (js ''app.js'')"
    by (simp add: pat_executable_def executable_extensions_def endsWith_def lower_ascii_def
        is_upper_def js_def)
  then have "list_ex (\<lambda>pattern. pattern (js ''app.js'')) dangerousPatterns"
    by (simp add: dangerousPatterns_def)
  moreover have "js ''app.js'' \<noteq> []"
    by (simp add: js_def)
  ultimately have "validatePath (js ''/srv/app'') (js ''app.js'') (js ''/srv/app'')
      = Inl (Error (msg_dangerous @ js ''app.js''))"
    by (simp add: validatePath_def)
  moreover have "path_resolve (js ''/srv/app'') [js ''/srv/app'', js ''app.js''] = js ''/srv/app/app.js''"
    by (simp add: path_resolve_def normalizeString_def js_def)
  moreover have "path_resolve (js ''/srv/app'') [js ''/srv/app''] = js ''/srv/app''"
    by (simp add: path_resolve_def normalizeString_def js_def)
  ultimately show ?thesis
    by simp
qed

text \<open>
  C3, amended. \<^verbatim>\<open>validatePath\<close> raises for every candidate that contains two dots in a
  row (so for every traversal segment), a tilde or a NUL, and for every candidate whose
  resolved form does not start with the resolved root. For every candidate that is not
  empty, matches none of the eleven deny patterns and resolves to at most 260 code units,
  the working directory being absolute, it succeeds and returns the resolved path, which
  starts with the resolved root. Whatever it returns is the resolved path of a candidate
  that matches no deny pattern, and starts with the resolved root.
\<close>

theorem validatePath_contract:
  "((str_includes p (js ''..'') \<or> 126 \<in> set p \<or> 0 \<in> set p
       \<or> \<not> prefix (path_resolve wd [base]) (path_resolve wd [base, p]))
      \<longrightarrow> isl (validatePath wd p base))
   \<and> ((p \<noteq> [] \<and> \<not> list_ex (\<lambda>pattern. pattern p) dangerousPatterns \<and> prefix [47] wd
        \<and> length (path_resolve wd [base, p]) \<le> 260)
      \<longrightarrow> validatePath wd p base = Inr (path_resolve wd [base, p])
          \<and> prefix (path_resolve wd [base]) (path_resolve wd [base, p]))
   \<and> (\<forall>q. validatePath wd p base = Inr q
      \<longrightarrow> q = path_resolve wd [base, p] \<and> prefix (path_resolve wd [base]) q
          \<and> \<not> list_ex (\<lambda>pattern. pattern p) dangerousPatterns)"
proof (intro conjI impI allI)
  assume "str_includes p (js ''..'') \<or> 126 \<in> set p \<or> 0 \<in> set p
       \<or> \<not> prefix (path_resolve wd [base]) (path_resolve wd [base, p])"
  then consider "list_ex (\<lambda>pattern. pattern p) dangerousPatterns"
    | "\<not> prefix (path_resolve wd [base]) (path_resolve wd [base, p])"
    by (auto simp: dangerousPatterns_def pat_dotdot_def pat_tilde_def pat_nul_def)
  then show "isl (validatePath wd p base)"
    by cases (simp_all add: validatePath_def Let_def)
next
  assume a: "p \<noteq> [] \<and> \<not> list_ex (\<lambda>pattern. pattern p) dangerousPatterns \<and> prefix [47] wd
        \<and> length (path_resolve wd [base, p]) \<le> 260"
  then show "validatePath wd p base = Inr (path_resolve wd [base, p])"
    by (intro validatePath_succeeds(1)) simp_all
  from a show "prefix (path_resolve wd [base]) (path_resolve wd [base, p])"
    by (intro validatePath_succeeds(2) [of p]) simp_all
next
  fix q
  assume q: "validatePath wd p base = Inr q"
  then show "q = path_resolve wd [base, p]"
    by (simp add: validatePath_def Let_def split: if_splits)
  from q show "prefix (path_resolve wd [base]) q"
    by (auto simp: validatePath_def Let_def split: if_splits)
  from q show "\<not> list_ex (\<lambda>pattern. pattern p) dangerousPatterns"
    by (simp add: validatePath_def Let_def split: if_splits)
qed

theorem validatePath_contract_witness:
  "str_includes (js ''../etc/passwd'') (js ''..'')
   \<and> isl (validatePath (js ''/srv/app'') (js ''../etc/passwd'') (js ''/srv/app''))
   \<and> js ''src/main.txt'' \<noteq> []
   \<and> \<not> list_ex (\<lambda>pattern. pattern (js ''src/main.txt'')) dangerousPatterns
   \<and> prefix [47] (js ''/srv/app'')
   \<and> path_resolve (js ''/srv/app'') [js ''/srv/app'', js ''src/main.txt''] = js ''/srv/app/src/main.txt''
   \<and> validatePath (js ''/srv/app'') (js ''src/main.txt'') (js ''/srv/app'')
       = Inr (js ''/srv/app/src/main.txt'')"
proof -
  have a: "str_includes (js ''../etc/passwd'') (js ''..'')"
    by (simp add: str_includes_def js_def)
  have b: "js ''src/main.txt'' \<noteq> []"
    by (simp add: js_def)
  have c: "\<not> list_ex (\<lambda>pattern. pattern (js ''src/main.txt'')) dangerousPatterns"
    by (simp add: dangerousPatterns_def pat_dotdot_def pat_tilde_def pat_unix_absolute_def
        pat_windows_absolute_def pat_nul_def pat_symbols_def pat_dots_def is_slash_def
        pat_slashes_def executable_extensions_def pat_executable_def pat_reserved_def
        pat_control_def str_includes_def endsWith_def lower_ascii_def is_upper_def is_lower_def
        js_def Let_def)
  have d: "prefix [47] (js ''/srv/app'')"
    by (simp add: js_def)
  have e: "path_resolve (js ''/srv/app'') [js ''/srv/app'', js ''src/main.txt''] = js ''/srv/app/src/main.txt''"
    by (simp add: path_resolve_def normalizeString_def js_def)
  have f: "length (js ''/srv/app/src/main.txt'') \<le> 260"
    by (simp add: js_def)
  have g: "isl (validatePath (js ''/srv/app'') (js ''../etc/passwd'') (js ''/srv/app''))"
    by (rule validatePath_contract [THEN conjunct1, rule_format]) (rule disjI1, rule a)
  have "validatePath (js ''/srv/app'') (js ''src/main.txt'') (js ''/srv/app'')
          = Inr (path_resolve (js ''/srv/app'') [js ''/srv/app'', js ''src/main.txt''])"
    by (rule validatePath_contract [THEN conjunct2, THEN conjunct1, rule_format, THEN conjunct1])
      (intro conjI b c d, simp only: e f)
  then have h: "validatePath (js ''/srv/app'') (js ''src/main.txt'') (js ''/srv/app'')
          = Inr (js ''/srv/app/src/main.txt'')"
    by (simp only: e)
  from a g b c d e h show ?thesis
    by (intro conjI)
qed

section \<open>Idempotence of the replacements\<close>

subsection \<open>Replacement in general\<close>








subsection \<open>A literal and a greedy run\<close>



















subsection \<open>A path pattern after a later path pattern\<close>


subsection \<open>The four path patterns\<close>


















subsection \<open>The tail of a credential pattern\<close>











subsection \<open>A keyword and its tail\<close>







subsection \<open>The redaction markers\<close>





subsection \<open>The six credential patterns\<close>




lemma prefix_ci_Cons: "prefix_ci (x # k) (c # t) \<longleftrightarrow> x = lower_ascii c \<and> prefix_ci k t"
  by (simp add: prefix_ci_def)

lemma prefix_ci_Nil: "prefix_ci (x # k) [] \<longleftrightarrow> False"
  by (simp add: prefix_ci_def)














subsection \<open>A credential pattern after itself and after a later one\<close>










subsection \<open>A path pattern after a credential pattern\<close>





subsection \<open>The ten replacements together\<close>















section \<open>Properties of the sanitization\<close>









end
